theory Spec2Isabelle
  imports Main "HOL-Library.AList"
begin

section \<open>TetriX: the piece and grid engine of \<^verbatim>\<open>TetriX.py\<close>\<close>

text \<open>
  A shallow embedding of the game engine in \<^verbatim>\<open>src/TetriX.py\<close>. Python integers are
  \<^typ>\<open>int\<close>, lists are lists, the game object is a record passed through every
  operation, and an exception is the left summand of a result. Rendering, sound and the
  particle list are left out: they are written by the engine but never read by it.
\<close>

subsection \<open>Constants and tables\<close>

definition SCREEN_WIDTH :: int where "SCREEN_WIDTH = 400"
definition SCREEN_HEIGHT :: int where "SCREEN_HEIGHT = 800"
definition BLOCK_SIZE :: int where "BLOCK_SIZE = 40"

definition GRID_WIDTH :: int where "GRID_WIDTH = SCREEN_WIDTH div BLOCK_SIZE"
definition GRID_HEIGHT :: int where "GRID_HEIGHT = SCREEN_HEIGHT div BLOCK_SIZE"

text \<open>The keys of the dictionary \<^verbatim>\<open>SHAPES\<close>, in the order the dictionary lists them.\<close>

datatype piece_type = Piece_I | Piece_O | Piece_T | Piece_S | Piece_Z | Piece_J | Piece_L

definition SHAPES_keys :: "piece_type list" where
  "SHAPES_keys = [Piece_I, Piece_O, Piece_T, Piece_S, Piece_Z, Piece_J, Piece_L]"

fun SHAPES_shape :: "piece_type \<Rightarrow> int list list" where
  "SHAPES_shape Piece_I = [[1, 1, 1, 1]]"
| "SHAPES_shape Piece_O = [[1, 1], [1, 1]]"
| "SHAPES_shape Piece_T = [[0, 1, 0], [1, 1, 1]]"
| "SHAPES_shape Piece_S = [[0, 1, 1], [1, 1, 0]]"
| "SHAPES_shape Piece_Z = [[1, 1, 0], [0, 1, 1]]"
| "SHAPES_shape Piece_J = [[1, 0, 0], [1, 1, 1]]"
| "SHAPES_shape Piece_L = [[0, 0, 1], [1, 1, 1]]"

fun SHAPES_color :: "piece_type \<Rightarrow> int" where
  "SHAPES_color Piece_I = 1"
| "SHAPES_color Piece_O = 4"
| "SHAPES_color Piece_T = 6"
| "SHAPES_color Piece_S = 5"
| "SHAPES_color Piece_Z = 7"
| "SHAPES_color Piece_J = 2"
| "SHAPES_color Piece_L = 3"

datatype GameState = MENU | PLAYING | PAUSED | GAME_OVER

datatype error = IndexError | AttributeError

subsection \<open>Python list primitives\<close>

text \<open>
  The position that an index \<open>i\<close> names in a list of \<open>n\<close> elements: itself from
  \<open>0\<close> to \<open>n - 1\<close>, counted from the end from \<open>-1\<close> down to \<open>-n\<close>, and none otherwise
  (the list operations then raise \<^verbatim>\<open>IndexError\<close>).
\<close>

definition py_pos :: "nat \<Rightarrow> int \<Rightarrow> nat option" where
  "py_pos n i =
     (if 0 \<le> i \<and> i < int n then Some (nat i)
      else if - int n \<le> i \<and> i < 0 then Some (nat (int n + i))
      else None)"

text \<open>\<^verbatim>\<open>xs[i]\<close>\<close>

definition py_index :: "'a list \<Rightarrow> int \<Rightarrow> error + 'a" where
  "py_index xs i =
     (case py_pos (length xs) i of None \<Rightarrow> Inl IndexError | Some j \<Rightarrow> Inr (xs ! j))"

text \<open>\<^verbatim>\<open>xs[i] = v\<close>\<close>

definition py_setitem :: "'a list \<Rightarrow> int \<Rightarrow> 'a \<Rightarrow> error + 'a list" where
  "py_setitem xs i v =
     (case py_pos (length xs) i of None \<Rightarrow> Inl IndexError | Some j \<Rightarrow> Inr (xs[j := v]))"

text \<open>\<^verbatim>\<open>del xs[i]\<close>\<close>

definition py_del :: "'a list \<Rightarrow> int \<Rightarrow> error + 'a list" where
  "py_del xs i =
     (case py_pos (length xs) i of
        None \<Rightarrow> Inl IndexError
      | Some j \<Rightarrow> Inr (take j xs @ drop (Suc j) xs))"

text \<open>
  \<^verbatim>\<open>zip(*rows)\<close> read as a list of lists: the columns of \<open>rows\<close>, as many as the
  shortest row has; no rows give no columns.
\<close>

function zip_star :: "'a list list \<Rightarrow> 'a list list" where
  "zip_star rows =
     (if rows = [] \<or> (\<exists>r \<in> set rows. r = []) then []
      else map hd rows # zip_star (map tl rows))"
  by pat_completeness auto
termination
proof (relation "measure (\<lambda>rows. length (hd rows))")
  show "wf (measure (\<lambda>rows::'a list list. length (hd rows)))" by simp
next
  fix rows :: "'a list list"
  assume "\<not> (rows = [] \<or> (\<exists>r \<in> set rows. r = []))"
  then have ne: "rows \<noteq> []" and all_ne: "\<forall>r \<in> set rows. r \<noteq> []"
    by auto
  from ne have "hd rows \<in> set rows"
    by simp
  with all_ne have hne: "hd rows \<noteq> []"
    by blast
  from ne have "hd (map tl rows) = tl (hd rows)"
    by (simp add: hd_map)
  with hne show "(map tl rows, rows) \<in> measure (\<lambda>rows. length (hd rows))"
    by simp
qed

declare zip_star.simps [simp del]

subsection \<open>Tetrimino\<close>

text \<open>
  The fields \<^verbatim>\<open>x\<close> and \<^verbatim>\<open>y\<close> of the class are \<open>pos_x\<close> and \<open>pos_y\<close> here, so
  that the letters stay free for variables.
\<close>

record tetrimino =
  piece_type :: piece_type
  shape :: "int list list"
  color :: int
  pos_x :: int
  pos_y :: int
  rotation_state :: int

text \<open>
  \<^verbatim>\<open>Tetrimino(piece_type)\<close>. Every call in the program passes a piece type, so the
  random choice for \<^verbatim>\<open>None\<close> is not modelled.
\<close>

definition Tetrimino :: "piece_type \<Rightarrow> tetrimino" where
  "Tetrimino t =
     \<lparr> piece_type = t,
       shape = SHAPES_shape t,
       color = SHAPES_color t,
       pos_x = GRID_WIDTH div 2 - int (length (hd (SHAPES_shape t))) div 2,
       pos_y = 0,
       rotation_state = 0 \<rparr>"

text \<open>\<^verbatim>\<open>[list(row) for row in zip(*shape[::-1])]\<close>\<close>

definition rotate_shape :: "int list list \<Rightarrow> int list list" where
  "rotate_shape sh = zip_star (rev sh)"

definition rotate :: "tetrimino \<Rightarrow> int list list" where
  "rotate p = rotate_shape (shape p)"

text \<open>
  \<^verbatim>\<open>_valid_position\<close>. The inner loop over \<^verbatim>\<open>enumerate(row)\<close>, from column counter
  \<open>dx\<close> on; \<open>Inr False\<close> is the early \<^verbatim>\<open>return False\<close>, \<open>Inr True\<close> the end of the
  loop. The comparisons short-circuit as in the source, so the grid is read only at a
  row index in \<open>[0, GRID_HEIGHT)\<close> and a column index in \<open>[0, GRID_WIDTH)\<close>.
\<close>

fun valid_row :: "int \<Rightarrow> int \<Rightarrow> int \<Rightarrow> int list \<Rightarrow> int list list \<Rightarrow> error + bool" where
  "valid_row x0 new_y dx [] g = Inr True"
| "valid_row x0 new_y dx (v # vs) g =
     (if v \<noteq> 0 then
        (let new_x = x0 + dx in
         if new_x < 0 \<or> new_x \<ge> GRID_WIDTH \<or> new_y \<ge> GRID_HEIGHT then Inr False
         else if new_y \<ge> 0 then
           (case py_index g new_y of
              Inl e \<Rightarrow> Inl e
            | Inr grow \<Rightarrow>
               (case py_index grow new_x of
                  Inl e \<Rightarrow> Inl e
                | Inr c \<Rightarrow> if c \<noteq> 0 then Inr False else valid_row x0 new_y (dx + 1) vs g))
         else valid_row x0 new_y (dx + 1) vs g)
      else valid_row x0 new_y (dx + 1) vs g)"

text \<open>The outer loop over \<^verbatim>\<open>enumerate(shape)\<close>, from row counter \<open>dy\<close> on.\<close>

fun valid_rows :: "int \<Rightarrow> int \<Rightarrow> int \<Rightarrow> int list list \<Rightarrow> int list list \<Rightarrow> error + bool" where
  "valid_rows x0 y0 dy [] g = Inr True"
| "valid_rows x0 y0 dy (row # rows) g =
     (case valid_row x0 (y0 + dy) 0 row g of
        Inl e \<Rightarrow> Inl e
      | Inr ok \<Rightarrow> if ok then valid_rows x0 y0 (dy + 1) rows g else Inr False)"

definition valid_position :: "int \<Rightarrow> int \<Rightarrow> int list list \<Rightarrow> int list list \<Rightarrow> error + bool" where
  "valid_position x0 y0 sh g = valid_rows x0 y0 0 sh g"

text \<open>A board as \<^verbatim>\<open>reset_game\<close> builds it: \<open>GRID_HEIGHT\<close> rows of \<open>GRID_WIDTH\<close> cells.\<close>

definition wf_grid :: "int list list \<Rightarrow> bool" where
  "wf_grid g \<longleftrightarrow> length g = nat GRID_HEIGHT \<and> list_all (\<lambda>r. length r = nat GRID_WIDTH) g"

text \<open>
  The condition of the specification on one occupied cell that lands at column \<open>cx\<close>
  and row \<open>cy\<close> of the board.
\<close>

definition cell_blocked :: "int list list \<Rightarrow> int \<Rightarrow> int \<Rightarrow> bool" where
  "cell_blocked g cx cy \<longleftrightarrow>
     cx < 0 \<or> cx \<ge> GRID_WIDTH \<or> cy \<ge> GRID_HEIGHT \<or> (cy \<ge> 0 \<and> g ! nat cy ! nat cx \<noteq> 0)"

text \<open>Some occupied cell \<open>(dr, dc)\<close> of the shape is blocked at origin \<open>(x0, y0)\<close>.\<close>

definition some_cell_blocked :: "int \<Rightarrow> int \<Rightarrow> int list list \<Rightarrow> int list list \<Rightarrow> bool" where
  "some_cell_blocked x0 y0 sh g \<longleftrightarrow>
     (\<exists>dr < length sh. \<exists>dc < length (sh ! dr).
        sh ! dr ! dc \<noteq> 0 \<and> cell_blocked g (x0 + int dc) (y0 + int dr))"

subsection \<open>The game object\<close>

text \<open>
  The fields of \<^verbatim>\<open>TetrisGame\<close> that the engine reads or writes. Three fields stand for
  the world outside: \<open>rng\<close> is the stream of raw random draws with \<open>rng_pos\<close> the number
  of draws taken so far, and \<open>file_writes\<close> lists, oldest first, every list that was
  dumped to \<^verbatim>\<open>tetris_scores.json\<close>.
\<close>

record game =
  state :: GameState
  grid :: "int list list"
  locked_positions :: "((int \<times> int) \<times> int) list"
  current_piece :: "tetrimino option"
  next_pieces :: "tetrimino list"
  score :: int
  lines_cleared :: int
  level :: int
  combo :: int
  hold_piece :: "tetrimino option"
  can_hold :: bool
  piece_bag :: "piece_type list"
  stats :: "piece_type \<Rightarrow> int"
  total_pieces :: int
  start_time :: int
  drop_time :: int
  drop_speed :: int
  line_clear_animation :: int
  line_clear_rows :: "int list"
  screen_shake :: int
  flash_effect :: int
  high_scores :: "int list"
  rng :: "nat \<Rightarrow> nat"
  rng_pos :: nat
  file_writes :: "int list list"

subsection \<open>The piece bag\<close>

text \<open>
  \<^verbatim>\<open>random.shuffle\<close> is the library's loop
  \<^verbatim>\<open>for i in reversed(range(1, len(x))): j = randbelow(i + 1); x[i], x[j] = x[j], x[i]\<close>;
  the draw \<^verbatim>\<open>randbelow(n)\<close> is the next element of the stream modulo \<open>n\<close>.
\<close>

fun shuffle_loop :: "nat \<Rightarrow> 'a list \<Rightarrow> (nat \<Rightarrow> nat) \<Rightarrow> nat \<Rightarrow> 'a list \<times> nat" where
  "shuffle_loop 0 xs r k = (xs, k)"
| "shuffle_loop (Suc i) xs r k =
     (let j = r k mod (Suc i + 1)
      in shuffle_loop i (xs[Suc i := xs ! j, j := xs ! Suc i]) r (k + 1))"

definition shuffle :: "'a list \<Rightarrow> (nat \<Rightarrow> nat) \<Rightarrow> nat \<Rightarrow> 'a list \<times> nat" where
  "shuffle xs r k = shuffle_loop (length xs - 1) xs r k"

definition refill_bag :: "game \<Rightarrow> game" where
  "refill_bag s =
     (case shuffle SHAPES_keys (rng s) (rng_pos s) of
        (bag, k) \<Rightarrow> s\<lparr>piece_bag := bag, rng_pos := k\<rparr>)"

text \<open>\<^verbatim>\<open>list.pop()\<close> takes the last element and raises on an empty list.\<close>

definition get_next_piece :: "game \<Rightarrow> error + piece_type \<times> game" where
  "get_next_piece s =
     (let s1 = (if piece_bag s = [] then refill_bag s else s)
      in if piece_bag s1 = [] then Inl IndexError
         else Inr (last (piece_bag s1), s1\<lparr>piece_bag := butlast (piece_bag s1)\<rparr>))"

text \<open>The loop \<^verbatim>\<open>while len(self.next_pieces) < 3\<close> of \<^verbatim>\<open>generate_next_pieces\<close>.\<close>

function fill_next_pieces :: "game \<Rightarrow> error + game" where
  "fill_next_pieces s =
     (if length (next_pieces s) < 3 then
        (case get_next_piece s of
           Inl e \<Rightarrow> Inl e
         | Inr (t, s1) \<Rightarrow> fill_next_pieces (s1\<lparr>next_pieces := next_pieces s1 @ [Tetrimino t]\<rparr>))
      else Inr s)"
  by pat_completeness auto
termination
  by (relation "measure (\<lambda>s. 3 - length (next_pieces s))")
     (auto simp: get_next_piece_def refill_bag_def Let_def split: if_splits prod.splits)

declare fill_next_pieces.simps [simp del]

definition generate_next_pieces :: "game \<Rightarrow> error + game" where
  "generate_next_pieces s =
     (case (if current_piece s = None then
              (case get_next_piece s of
                 Inl e \<Rightarrow> Inl e
               | Inr (t, s1) \<Rightarrow> Inr (s1\<lparr>current_piece := Some (Tetrimino t)\<rparr>))
            else Inr s) of
        Inl e \<Rightarrow> Inl e
      | Inr s2 \<Rightarrow> fill_next_pieces s2)"

text \<open>\<^verbatim>\<open>reset_game\<close>; \<open>now\<close> is the clock reading \<^verbatim>\<open>pygame.time.get_ticks()\<close>.\<close>

definition reset_game :: "int \<Rightarrow> game \<Rightarrow> error + game" where
  "reset_game now s =
     generate_next_pieces
       (s\<lparr> grid := replicate (nat GRID_HEIGHT) (replicate (nat GRID_WIDTH) 0),
           locked_positions := [],
           current_piece := None,
           next_pieces := [],
           score := 0,
           lines_cleared := 0,
           level := 1,
           combo := 0,
           hold_piece := None,
           can_hold := True,
           piece_bag := [],
           stats := (\<lambda>_. 0),
           total_pieces := 0,
           start_time := now \<rparr>)"

definition calculate_drop_speed :: "game \<Rightarrow> int" where
  "calculate_drop_speed s = max 50 (500 - (level s - 1) * 50)"

subsection \<open>Moving the falling piece\<close>

definition move_piece :: "int \<Rightarrow> int \<Rightarrow> bool \<Rightarrow> game \<Rightarrow> error + bool \<times> game" where
  "move_piece dx dy rot s =
     (case current_piece s of
        None \<Rightarrow> Inr (False, s)
      | Some p \<Rightarrow>
          if state s \<noteq> PLAYING then Inr (False, s)
          else
            (let old_shape = shape p;
                 p1 = (if rot then p\<lparr>shape := rotate p\<rparr> else p);
                 p2 = p1\<lparr>pos_x := pos_x p1 + dx\<rparr>;
                 p3 = p2\<lparr>pos_y := pos_y p2 + dy\<rparr>
             in case valid_position (pos_x p3) (pos_y p3) (shape p3) (grid s) of
                  Inl e \<Rightarrow> Inl e
                | Inr ok \<Rightarrow>
                    if \<not> ok then
                      (let p4 = p3\<lparr>pos_x := pos_x p3 - dx\<rparr>;
                           p5 = p4\<lparr>pos_y := pos_y p4 - dy\<rparr>;
                           p6 = (if rot then p5\<lparr>shape := old_shape\<rparr> else p5)
                       in Inr (False, s\<lparr>current_piece := Some p6\<rparr>))
                    else Inr (True, s\<lparr>current_piece := Some p3\<rparr>)))"

text \<open>
  The loop \<^verbatim>\<open>while self.move_piece(0, 1): drop_distance += 1\<close>. Nothing bounds it for
  a shape without an occupied cell, so it is a partial function: \<open>None\<close> is a run that
  never returns.
\<close>

partial_function (option) drop_loop :: "game \<Rightarrow> int \<Rightarrow> (error + int \<times> game) option" where
  "drop_loop s drop_distance =
     (case move_piece 0 1 False s of
        Inl e \<Rightarrow> Some (Inl e)
      | Inr (moved, s1) \<Rightarrow>
          if moved then drop_loop s1 (drop_distance + 1)
          else Some (Inr (drop_distance, s1)))"

declare drop_loop.simps [code]

text \<open>\<^verbatim>\<open>get_ghost_y\<close>, the same descent without moving the piece.\<close>

partial_function (option) ghost_loop :: "tetrimino \<Rightarrow> int list list \<Rightarrow> int \<Rightarrow> (error + int) option" where
  "ghost_loop p g ghost_y =
     (case valid_position (pos_x p) (ghost_y + 1) (shape p) g of
        Inl e \<Rightarrow> Some (Inl e)
      | Inr ok \<Rightarrow> if ok then ghost_loop p g (ghost_y + 1) else Some (Inr ghost_y))"

declare ghost_loop.simps [code]

definition get_ghost_y :: "tetrimino \<Rightarrow> int list list \<Rightarrow> (error + int) option" where
  "get_ghost_y p g = ghost_loop p g (pos_y p)"

subsection \<open>Line clearing and scoring\<close>

text \<open>
  \<^verbatim>\<open>all(self.grid[y][x] != 0 for x in range(GRID_WIDTH))\<close>, over the column indices
  still to visit; it stops at the first empty cell.
\<close>

fun all_nonzero :: "int list list \<Rightarrow> int \<Rightarrow> int list \<Rightarrow> error + bool" where
  "all_nonzero g y [] = Inr True"
| "all_nonzero g y (x # xs) =
     (case py_index g y of
        Inl e \<Rightarrow> Inl e
      | Inr grow \<Rightarrow>
          (case py_index grow x of
             Inl e \<Rightarrow> Inl e
           | Inr c \<Rightarrow> if c \<noteq> 0 then all_nonzero g y xs else Inr False))"

text \<open>The scan \<^verbatim>\<open>for y in range(GRID_HEIGHT)\<close> that collects \<^verbatim>\<open>lines_to_clear\<close>.\<close>

fun scan_lines :: "int list list \<Rightarrow> int list \<Rightarrow> int list \<Rightarrow> error + int list" where
  "scan_lines g [] lines_to_clear = Inr lines_to_clear"
| "scan_lines g (y # ys) lines_to_clear =
     (case all_nonzero g y [0 .. GRID_WIDTH - 1] of
        Inl e \<Rightarrow> Inl e
      | Inr full \<Rightarrow> scan_lines g ys (if full then lines_to_clear @ [y] else lines_to_clear))"

text \<open>
  The loop \<^verbatim>\<open>for y in sorted(lines_to_clear, reverse=True)\<close>: delete row \<open>y\<close> of the
  grid as it is now, then insert an empty row at the top.
\<close>

fun remove_lines :: "int list \<Rightarrow> int list list \<Rightarrow> error + int list list" where
  "remove_lines [] g = Inr g"
| "remove_lines (y # ys) g =
     (case py_del g y of
        Inl e \<Rightarrow> Inl e
      | Inr g1 \<Rightarrow> remove_lines ys (replicate (nat GRID_WIDTH) 0 # g1))"

text \<open>The rebuild of \<^verbatim>\<open>locked_positions\<close>, a dictionary kept in insertion order.\<close>

definition shift_locked :: "int list \<Rightarrow> ((int \<times> int) \<times> int) list \<Rightarrow> ((int \<times> int) \<times> int) list" where
  "shift_locked lines_to_clear lp =
     fold (\<lambda>((cx, cy), c) new_locked.
             (let lines_below = int (length (filter (\<lambda>line_y. line_y > cy) lines_to_clear));
                  new_y = cy + lines_below
              in if new_y < GRID_HEIGHT then AList.update (cx, new_y) c new_locked
                 else new_locked))
          lp []"

definition create_line_clear_effect :: "int list \<Rightarrow> game \<Rightarrow> game" where
  "create_line_clear_effect rows s =
     s\<lparr>line_clear_animation := 30, line_clear_rows := rows, flash_effect := 10\<rparr>"

definition clear_lines :: "game \<Rightarrow> error + int \<times> game" where
  "clear_lines s =
     (case scan_lines (grid s) [0 .. GRID_HEIGHT - 1] [] of
        Inl e \<Rightarrow> Inl e
      | Inr lines_to_clear \<Rightarrow>
          if lines_to_clear \<noteq> [] then
            (let s1 = create_line_clear_effect lines_to_clear s;
                 s2 = s1\<lparr>screen_shake := (if length lines_to_clear = 4 then 8 else 4)\<rparr>
             in case remove_lines (rev (sort lines_to_clear)) (grid s2) of
                  Inl e \<Rightarrow> Inl e
                | Inr g1 \<Rightarrow>
                    Inr (int (length lines_to_clear),
                         s2\<lparr>grid := g1,
                            locked_positions := shift_locked lines_to_clear (locked_positions s2)\<rparr>))
          else Inr (int (length lines_to_clear), s))"

text \<open>\<^verbatim>\<open>line_scores.get(lines_cleared, 0)\<close>\<close>

definition line_scores_get :: "int \<Rightarrow> int" where
  "line_scores_get n =
     (if n = 1 then 100 else if n = 2 then 300 else if n = 3 then 500
      else if n = 4 then 800 else 0)"

definition calculate_score :: "int \<Rightarrow> game \<Rightarrow> game" where
  "calculate_score n s =
     (if n = 0 then s\<lparr>combo := 0\<rparr>
      else
        (let base_score = line_scores_get n * level s;
             combo_bonus = (if combo s > 0 then 50 * combo s * level s else 0);
             s1 = s\<lparr>score := score s + (base_score + combo_bonus)\<rparr>;
             s2 = s1\<lparr>lines_cleared := lines_cleared s1 + n\<rparr>;
             s3 = s2\<lparr>combo := combo s2 + 1\<rparr>;
             new_level = lines_cleared s3 div 10 + 1
         in if new_level > level s3 then
              (let s4 = s3\<lparr>level := new_level\<rparr>
               in s4\<lparr>drop_speed := calculate_drop_speed s4\<rparr>)
            else s3))"

subsection \<open>Spawning, holding and locking\<close>

text \<open>\<^verbatim>\<open>list.pop(0)\<close> raises on an empty list; a method call on \<^verbatim>\<open>None\<close> raises.\<close>

definition spawn_next_piece :: "game \<Rightarrow> error + game" where
  "spawn_next_piece s =
     (case next_pieces s of
        [] \<Rightarrow> Inl IndexError
      | p # rest \<Rightarrow>
          (case generate_next_pieces (s\<lparr>current_piece := Some p, next_pieces := rest\<rparr>) of
             Inl e \<Rightarrow> Inl e
           | Inr s1 \<Rightarrow>
               (let s2 = s1\<lparr>can_hold := True\<rparr>;
                    s3 = s2\<lparr>total_pieces := total_pieces s2 + 1\<rparr>
                in case current_piece s3 of
                     None \<Rightarrow> Inl AttributeError
                   | Some q \<Rightarrow>
                       (case valid_position (pos_x q) (pos_y q) (shape q) (grid s3) of
                          Inl e \<Rightarrow> Inl e
                        | Inr ok \<Rightarrow> if \<not> ok then Inr (s3\<lparr>state := GAME_OVER\<rparr>) else Inr s3))))"

definition hold_current_piece :: "game \<Rightarrow> error + game" where
  "hold_current_piece s =
     (case current_piece s of
        None \<Rightarrow> Inr s
      | Some p \<Rightarrow>
          if \<not> can_hold s then Inr s
          else
            (case hold_piece s of
               None \<Rightarrow>
                 (case spawn_next_piece (s\<lparr>hold_piece := Some (Tetrimino (piece_type p))\<rparr>) of
                    Inl e \<Rightarrow> Inl e
                  | Inr s1 \<Rightarrow> Inr (s1\<lparr>can_hold := False\<rparr>))
             | Some h \<Rightarrow>
                 (let temp_type = piece_type p;
                      s1 = s\<lparr>current_piece := Some (Tetrimino (piece_type h))\<rparr>;
                      s2 = s1\<lparr>hold_piece := Some (Tetrimino temp_type)\<rparr>
                  in Inr (s2\<lparr>can_hold := False\<rparr>))))"

text \<open>
  The two assignments \<^verbatim>\<open>self.grid[grid_y][grid_x] = color\<close> and
  \<^verbatim>\<open>self.locked_positions[(grid_x, grid_y)] = color\<close> of \<^verbatim>\<open>lock_piece\<close>, at the
  index pair \<open>(grid_y, grid_x)\<close>. The row is changed in place, so the grid holds the new
  row where it held the old one.
\<close>

fun write_cell :: "tetrimino \<Rightarrow> int \<times> int \<Rightarrow> game \<Rightarrow> error + game" where
  "write_cell p (grid_y, grid_x) s =
     (case py_index (grid s) grid_y of
        Inl e \<Rightarrow> Inl e
      | Inr grow \<Rightarrow>
          (case py_setitem grow grid_x (color p) of
             Inl e \<Rightarrow> Inl e
           | Inr grow1 \<Rightarrow>
               (case py_setitem (grid s) grid_y grow1 of
                  Inl e \<Rightarrow> Inl e
                | Inr g1 \<Rightarrow>
                    Inr (s\<lparr>grid := g1,
                           locked_positions :=
                             AList.update (grid_x, grid_y) (color p) (locked_positions s)\<rparr>))))"

text \<open>
  The second pair of loops of \<^verbatim>\<open>lock_piece\<close> (``Add piece to grid''). The inner loop,
  for the shape row with index \<open>ry\<close>, from column counter \<open>cx\<close> on. The row index is
  guarded by \<^verbatim>\<open>0 <= grid_y < GRID_HEIGHT\<close>; the column index is used as it is.
\<close>

fun lock_row :: "tetrimino \<Rightarrow> int \<Rightarrow> int \<Rightarrow> int list \<Rightarrow> game \<Rightarrow> error + game" where
  "lock_row p ry cx [] s = Inr s"
| "lock_row p ry cx (v # vs) s =
     (if v \<noteq> 0 then
        (let grid_x = pos_x p + cx; grid_y = pos_y p + ry
         in if 0 \<le> grid_y \<and> grid_y < GRID_HEIGHT then
              (case write_cell p (grid_y, grid_x) s of
                 Inl e \<Rightarrow> Inl e
               | Inr s1 \<Rightarrow> lock_row p ry (cx + 1) vs s1)
            else lock_row p ry (cx + 1) vs s)
      else lock_row p ry (cx + 1) vs s)"

fun lock_rows :: "tetrimino \<Rightarrow> int \<Rightarrow> int list list \<Rightarrow> game \<Rightarrow> error + game" where
  "lock_rows p ry [] s = Inr s"
| "lock_rows p ry (row # rows) s =
     (case lock_row p ry 0 row s of
        Inl e \<Rightarrow> Inl e
      | Inr s1 \<Rightarrow> lock_rows p (ry + 1) rows s1)"

text \<open>
  The index pairs \<open>(grid_y, grid_x)\<close> at which these loops execute the assignments, in
  the order of execution: the same loops and the same guard, with the assignment left out.
\<close>

fun row_targets :: "tetrimino \<Rightarrow> int \<Rightarrow> int \<Rightarrow> int list \<Rightarrow> (int \<times> int) list" where
  "row_targets p ry cx [] = []"
| "row_targets p ry cx (v # vs) =
     (if v \<noteq> 0 then
        (let grid_x = pos_x p + cx; grid_y = pos_y p + ry
         in if 0 \<le> grid_y \<and> grid_y < GRID_HEIGHT then
              (grid_y, grid_x) # row_targets p ry (cx + 1) vs
            else row_targets p ry (cx + 1) vs)
      else row_targets p ry (cx + 1) vs)"

fun lock_targets :: "tetrimino \<Rightarrow> int \<Rightarrow> int list list \<Rightarrow> (int \<times> int) list" where
  "lock_targets p ry [] = []"
| "lock_targets p ry (row # rows) = row_targets p ry 0 row @ lock_targets p (ry + 1) rows"

fun write_all :: "tetrimino \<Rightarrow> (int \<times> int) list \<Rightarrow> game \<Rightarrow> error + game" where
  "write_all p [] s = Inr s"
| "write_all p (t # ts) s =
     (case write_cell p t s of
        Inl e \<Rightarrow> Inl e
      | Inr s1 \<Rightarrow> write_all p ts s1)"

definition lock_piece :: "game \<Rightarrow> error + game" where
  "lock_piece s =
     (case current_piece s of
        None \<Rightarrow> Inr s
      | Some p \<Rightarrow>
          (case lock_rows p 0 (shape p) s of
             Inl e \<Rightarrow> Inl e
           | Inr s1 \<Rightarrow>
               (let s2 = s1\<lparr>stats := (stats s1)(piece_type p := stats s1 (piece_type p) + 1)\<rparr>
                in case clear_lines s2 of
                     Inl e \<Rightarrow> Inl e
                   | Inr (n, s3) \<Rightarrow> spawn_next_piece (calculate_score n s3))))"

definition hard_drop :: "game \<Rightarrow> (error + game) option" where
  "hard_drop s =
     (case current_piece s of
        None \<Rightarrow> Some (Inr s)
      | Some p \<Rightarrow>
          (case drop_loop s 0 of
             None \<Rightarrow> None
           | Some (Inl e) \<Rightarrow> Some (Inl e)
           | Some (Inr (drop_distance, s1)) \<Rightarrow>
               Some (lock_piece (s1\<lparr>score := score s1 + drop_distance * 2\<rparr>))))"

subsection \<open>Events, the clock and the frame\<close>

datatype key = K_SPACE | K_LEFT | K_RIGHT | K_DOWN | K_UP | K_c | K_p | K_r | K_q | K_other

datatype event = QUIT | KEYDOWN key | OTHER_EVENT

text \<open>
  The body of the loop of \<^verbatim>\<open>handle_events\<close> for one event. The boolean is \<open>False\<close>
  where the source executes \<^verbatim>\<open>return False\<close> and \<open>True\<close> where the loop goes on.
\<close>

definition handle_event :: "int \<Rightarrow> event \<Rightarrow> game \<Rightarrow> (error + bool \<times> game) option" where
  "handle_event now ev s =
     (case ev of
        QUIT \<Rightarrow> Some (Inr (False, s))
      | OTHER_EVENT \<Rightarrow> Some (Inr (True, s))
      | KEYDOWN k \<Rightarrow>
          (case state s of
             MENU \<Rightarrow>
               if k = K_SPACE then
                 (case reset_game now (s\<lparr>state := PLAYING\<rparr>) of
                    Inl e \<Rightarrow> Some (Inl e)
                  | Inr s1 \<Rightarrow> Some (Inr (True, s1)))
               else Some (Inr (True, s))
           | PLAYING \<Rightarrow>
               if k = K_LEFT then
                 (case move_piece (- 1) 0 False s of
                    Inl e \<Rightarrow> Some (Inl e)
                  | Inr (moved, s1) \<Rightarrow> Some (Inr (True, s1)))
               else if k = K_RIGHT then
                 (case move_piece 1 0 False s of
                    Inl e \<Rightarrow> Some (Inl e)
                  | Inr (moved, s1) \<Rightarrow> Some (Inr (True, s1)))
               else if k = K_DOWN then
                 (case move_piece 0 1 False s of
                    Inl e \<Rightarrow> Some (Inl e)
                  | Inr (moved, s1) \<Rightarrow>
                      Some (Inr (True, if moved then s1\<lparr>score := score s1 + 1\<rparr> else s1)))
               else if k = K_UP then
                 (case move_piece 0 0 True s of
                    Inl e \<Rightarrow> Some (Inl e)
                  | Inr (moved, s1) \<Rightarrow> Some (Inr (True, s1)))
               else if k = K_SPACE then
                 (case hard_drop s of
                    None \<Rightarrow> None
                  | Some (Inl e) \<Rightarrow> Some (Inl e)
                  | Some (Inr s1) \<Rightarrow> Some (Inr (True, s1)))
               else if k = K_c then
                 (case hold_current_piece s of
                    Inl e \<Rightarrow> Some (Inl e)
                  | Inr s1 \<Rightarrow> Some (Inr (True, s1)))
               else if k = K_p then Some (Inr (True, s\<lparr>state := PAUSED\<rparr>))
               else Some (Inr (True, s))
           | PAUSED \<Rightarrow>
               if k = K_p then Some (Inr (True, s\<lparr>state := PLAYING\<rparr>))
               else Some (Inr (True, s))
           | GAME_OVER \<Rightarrow>
               if k = K_r then
                 (case reset_game now (s\<lparr>state := PLAYING\<rparr>) of
                    Inl e \<Rightarrow> Some (Inl e)
                  | Inr s1 \<Rightarrow> Some (Inr (True, s1)))
               else if k = K_q then Some (Inr (False, s))
               else Some (Inr (True, s))))"

text \<open>\<^verbatim>\<open>handle_events\<close> over the events that \<^verbatim>\<open>pygame.event.get()\<close> returned.\<close>

fun handle_events :: "int \<Rightarrow> event list \<Rightarrow> game \<Rightarrow> (error + bool \<times> game) option" where
  "handle_events now [] s = Some (Inr (True, s))"
| "handle_events now (ev # evs) s =
     (case handle_event now ev s of
        None \<Rightarrow> None
      | Some (Inl e) \<Rightarrow> Some (Inl e)
      | Some (Inr (go_on, s1)) \<Rightarrow>
          if go_on then handle_events now evs s1 else Some (Inr (False, s1)))"

text \<open>\<^verbatim>\<open>update\<close>; the particle list is not modelled.\<close>

definition update :: "int \<Rightarrow> game \<Rightarrow> error + game" where
  "update current_time s =
     (if state s \<noteq> PLAYING then Inr s
      else if current_time - drop_time s > drop_speed s then
        (case move_piece 0 1 False s of
           Inl e \<Rightarrow> Inl e
         | Inr (moved, s1) \<Rightarrow>
             (case (if \<not> moved then lock_piece s1 else Inr s1) of
                Inl e \<Rightarrow> Inl e
              | Inr s2 \<Rightarrow> Inr (s2\<lparr>drop_time := current_time\<rparr>)))
      else Inr s)"

text \<open>
  \<^verbatim>\<open>save_high_score\<close>. The dump to the file is recorded in \<open>file_writes\<close>; an I/O
  failure is swallowed by the source and changes nothing else.
\<close>

definition save_high_score :: "game \<Rightarrow> game" where
  "save_high_score s =
     (let s1 = s\<lparr>high_scores := high_scores s @ [score s]\<rparr>;
          s2 = s1\<lparr>high_scores := rev (sort (high_scores s1))\<rparr>;
          s3 = s2\<lparr>high_scores := take 10 (high_scores s2)\<rparr>
      in s3\<lparr>file_writes := file_writes s3 @ [high_scores s3]\<rparr>)"

text \<open>
  What \<^verbatim>\<open>draw_grid\<close> does to the game object: the three effect counters count down,
  and the ghost row is computed while a piece is falling. Drawing itself is not modelled.
\<close>

definition draw_grid :: "game \<Rightarrow> (error + game) option" where
  "draw_grid s =
     (let s1 = (if screen_shake s > 0 then s\<lparr>screen_shake := screen_shake s - 1\<rparr> else s);
          s2 = (if flash_effect s1 > 0 then s1\<lparr>flash_effect := flash_effect s1 - 1\<rparr> else s1);
          s3 = (if line_clear_animation s2 > 0 then
                  (let s2a = s2\<lparr>line_clear_animation := line_clear_animation s2 - 1\<rparr>
                   in if line_clear_animation s2a = 0 then s2a\<lparr>line_clear_rows := []\<rparr> else s2a)
                else s2)
      in case current_piece s3 of
           None \<Rightarrow> Some (Inr s3)
         | Some p \<Rightarrow>
             if state s3 = PLAYING then
               (case get_ghost_y p (grid s3) of
                  None \<Rightarrow> None
                | Some (Inl e) \<Rightarrow> Some (Inl e)
                | Some (Inr ghost_y) \<Rightarrow> Some (Inr s3))
             else Some (Inr s3))"

text \<open>
  One pass through the body of the loop of \<^verbatim>\<open>run\<close>: the events of the frame, the
  update, then the drawing branch. \<open>t_events\<close> and \<open>t_update\<close> are the clock readings of
  the two steps. The boolean is the new value of \<^verbatim>\<open>running\<close>.
\<close>

definition run_frame :: "event list \<Rightarrow> int \<Rightarrow> int \<Rightarrow> game \<Rightarrow> (error + bool \<times> game) option" where
  "run_frame evs t_events t_update s =
     (case handle_events t_events evs s of
        None \<Rightarrow> None
      | Some (Inl e) \<Rightarrow> Some (Inl e)
      | Some (Inr (running, s1)) \<Rightarrow>
          (case update t_update s1 of
             Inl e \<Rightarrow> Some (Inl e)
           | Inr s2 \<Rightarrow>
               if state s2 = MENU then Some (Inr (running, s2))
               else
                 (case draw_grid s2 of
                    None \<Rightarrow> None
                  | Some (Inl e) \<Rightarrow> Some (Inl e)
                  | Some (Inr s3) \<Rightarrow>
                      if state s3 = PAUSED then Some (Inr (running, s3))
                      else if state s3 = GAME_OVER then Some (Inr (running, save_high_score s3))
                      else Some (Inr (running, s3)))))"

text \<open>
  The loop \<^verbatim>\<open>while running\<close> of \<^verbatim>\<open>run\<close> over the inputs of finitely many frames
  (events and the two clock readings of each); it stops when \<^verbatim>\<open>running\<close> is false.
\<close>

fun run_frames :: "(event list \<times> int \<times> int) list \<Rightarrow> game \<Rightarrow> (error + bool \<times> game) option" where
  "run_frames [] s = Some (Inr (True, s))"
| "run_frames ((evs, t_events, t_update) # frames) s =
     (case run_frame evs t_events t_update s of
        None \<Rightarrow> None
      | Some (Inl e) \<Rightarrow> Some (Inl e)
      | Some (Inr (running, s1)) \<Rightarrow>
          if running then run_frames frames s1 else Some (Inr (False, s1)))"

text \<open>
  \<^verbatim>\<open>TetrisGame.__init__\<close>. \<open>r\<close> is the random stream, \<open>t0\<close> and \<open>t1\<close> the two clock
  readings, and \<open>stored\<close> what \<^verbatim>\<open>load_high_scores\<close> finds: the list in the file, or
  \<open>None\<close> for a missing or unreadable file.
\<close>

definition load_high_scores :: "int list option \<Rightarrow> int list" where
  "load_high_scores stored = (case stored of Some l \<Rightarrow> l | None \<Rightarrow> [])"

definition init_game :: "(nat \<Rightarrow> nat) \<Rightarrow> int \<Rightarrow> int \<Rightarrow> int list option \<Rightarrow> error + game" where
  "init_game r t0 t1 stored =
     (case reset_game t0
             \<lparr> state = MENU, grid = [], locked_positions = [], current_piece = None,
               next_pieces = [], score = 0, lines_cleared = 0, level = 1, combo = 0,
               hold_piece = None, can_hold = True, piece_bag = [], stats = (\<lambda>_. 0),
               total_pieces = 0, start_time = t0, drop_time = 0, drop_speed = 500,
               line_clear_animation = 0, line_clear_rows = [], screen_shake = 0,
               flash_effect = 0, high_scores = [], rng = r, rng_pos = 0,
               file_writes = [] \<rparr> of
        Inl e \<Rightarrow> Inl e
      | Inr s \<Rightarrow>
          Inr (s\<lparr> drop_time := 0, drop_speed := 500, line_clear_animation := 0,
                 line_clear_rows := [], screen_shake := 0, flash_effect := 0,
                 total_pieces := 0, start_time := t1,
                 high_scores := load_high_scores stored \<rparr>))"

subsection \<open>Auxiliary notions for the statements\<close>

text \<open>An index pair \<open>(row, column)\<close> that lies on the board.\<close>

definition in_grid :: "int \<times> int \<Rightarrow> bool" where
  "in_grid t \<longleftrightarrow> 0 \<le> fst t \<and> fst t < GRID_HEIGHT \<and> 0 \<le> snd t \<and> snd t < GRID_WIDTH"

text \<open>
  The game object right after \<^verbatim>\<open>TetrisGame()\<close> when every random draw is \<open>0\<close>, both
  clock readings are \<open>0\<close> and no score file exists.
\<close>

definition empty_grid :: "int list list" where
  "empty_grid = replicate 20 (replicate 10 0)"

definition menu_state :: game where
  "menu_state =
     \<lparr> state = MENU, grid = empty_grid, locked_positions = [],
       current_piece = Some (Tetrimino Piece_I),
       next_pieces = [Tetrimino Piece_L, Tetrimino Piece_J, Tetrimino Piece_Z],
       score = 0, lines_cleared = 0, level = 1, combo = 0,
       hold_piece = None, can_hold = True, piece_bag = [Piece_O, Piece_T, Piece_S],
       stats = (\<lambda>_. 0), total_pieces = 0, start_time = 0, drop_time = 0, drop_speed = 500,
       line_clear_animation = 0, line_clear_rows = [], screen_shake = 0,
       flash_effect = 0, high_scores = [], rng = (\<lambda>_. 0), rng_pos = 6,
       file_writes = [] \<rparr>"

text \<open>The game object an operation returned, when it returned one.\<close>

definition op_game :: "(error + game) option \<Rightarrow> game option" where
  "op_game r = (case r of Some (Inr s) \<Rightarrow> Some s | _ \<Rightarrow> None)"

definition frame_game :: "(error + bool \<times> game) option \<Rightarrow> game option" where
  "frame_game r = (case r of Some (Inr (go_on, s)) \<Rightarrow> Some s | _ \<Rightarrow> None)"

text \<open>The state \<open>menu_state\<close> with the phase set to Paused.\<close>

definition paused_state :: game where
  "paused_state = menu_state\<lparr>state := PAUSED\<rparr>"

text \<open>Fields that the bag operations leave alone.\<close>

definition same_play :: "game \<Rightarrow> game \<Rightarrow> bool" where
  "same_play s s1 \<longleftrightarrow>
     state s1 = state s \<and> grid s1 = grid s \<and> score s1 = score s \<and>
     lines_cleared s1 = lines_cleared s \<and> level s1 = level s \<and> combo s1 = combo s \<and>
     drop_speed s1 = drop_speed s \<and> high_scores s1 = high_scores s \<and>
     file_writes s1 = file_writes s"

text \<open>A frame whose events do not contain the restart key.\<close>

definition no_restart :: "event list \<times> int \<times> int \<Rightarrow> bool" where
  "no_restart fr \<longleftrightarrow> KEYDOWN K_r \<notin> set (fst fr)"

text \<open>A board with the first piece locked in the top row, below a queue that starts with an L.\<close>

definition blocked_state :: game where
  "blocked_state =
     menu_state\<lparr>state := PLAYING,
                grid := [0, 0, 0, 1, 1, 1, 1, 0, 0, 0] # replicate 19 (replicate 10 0)\<rparr>"

text \<open>A game that ended at level 2: ten lines cleared, drop interval \<open>450\<close>.\<close>

definition over_state :: game where
  "over_state =
     menu_state\<lparr>state := GAME_OVER, score := 1200, lines_cleared := 10, level := 2,
                drop_speed := 450\<rparr>"

text \<open>
  The contract of the specification for clearing rows, in its own words: the full rows
  are removed, as many empty rows are put on top, the other rows keep their order, and
  the number of removed rows is returned.
\<close>

definition row_is_full :: "int list \<Rightarrow> bool" where
  "row_is_full r \<longleftrightarrow> list_all (\<lambda>c. c \<noteq> 0) r"

definition clear_full_rows_spec :: "int list list \<Rightarrow> int \<times> int list list" where
  "clear_full_rows_spec g =
     (let kept = filter (\<lambda>r. \<not> row_is_full r) g;
          n = length g - length kept
      in (int n, replicate n (replicate (nat GRID_WIDTH) 0) @ kept))"

text \<open>The count and the board that \<open>clear_lines\<close> returned.\<close>

definition cleared :: "error + int \<times> game \<Rightarrow> (int \<times> int list list) option" where
  "cleared r = (case r of Inr (n, s) \<Rightarrow> Some (n, grid s) | Inl e \<Rightarrow> None)"

text \<open>
  A board on which an O piece has just completed the two bottom rows, with an I piece
  lying on top of them in row 17.
\<close>

definition two_rows_state :: game where
  "two_rows_state =
     menu_state\<lparr>state := PLAYING,
                grid := replicate 17 (replicate 10 0) @
                        [[1, 1, 1, 1, 0, 0, 0, 0, 0, 0], replicate 10 4, replicate 10 4]\<rparr>"

text \<open>
  Two facts that every operation of the engine keeps: the board has \<open>GRID_HEIGHT\<close> rows
  of \<open>GRID_WIDTH\<close> cells, and the level is the one that the line total gives.
\<close>

definition engine_inv :: "game \<Rightarrow> bool" where
  "engine_inv s \<longleftrightarrow> wf_grid (grid s) \<and> level s = lines_cleared s div 10 + 1"

text \<open>
  The game objects that a run can pass through: the one the constructor returns, and
  from there any step of the main loop (one event handled, one update, one call of
  \<open>draw_grid\<close> outside the menu, one call of \<open>save_high_score\<close> in the GameOver phase),
  in any order.
\<close>

inductive reachable :: "game \<Rightarrow> bool" where
  start: "init_game r t0 t1 stored = Inr s \<Longrightarrow> reachable s"
| event: "reachable s \<Longrightarrow> handle_event now ev s = Some (Inr (go_on, s1)) \<Longrightarrow> reachable s1"
| tick: "reachable s \<Longrightarrow> update now s = Inr s1 \<Longrightarrow> reachable s1"
| draw: "reachable s \<Longrightarrow> state s \<noteq> MENU \<Longrightarrow> draw_grid s = Some (Inr s1) \<Longrightarrow> reachable s1"
| save: "reachable s \<Longrightarrow> state s = GAME_OVER \<Longrightarrow> reachable (save_high_score s)"

text \<open>The indices of the full rows of a board, in ascending order.\<close>

definition full_lines :: "int list list \<Rightarrow> int list" where
  "full_lines g = filter (\<lambda>y. row_is_full (g ! nat y)) [0 .. 19]"

text \<open>The verdict of \<open>valid_position\<close> on the current piece where it stands.\<close>

definition piece_valid :: "game \<Rightarrow> (error + bool) option" where
  "piece_valid s =
     (case current_piece s of
        None \<Rightarrow> None
      | Some p \<Rightarrow> Some (valid_position (pos_x p) (pos_y p) (shape p) (grid s)))"

text \<open>The phase, the current piece with that verdict, the hold slot with its flag, and the board.\<close>

definition play_view ::
  "game \<Rightarrow> GameState \<times> tetrimino option \<times> (error + bool) option \<times> tetrimino option \<times> bool \<times>
           int list list" where
  "play_view s = (state s, current_piece s, piece_valid s, hold_piece s, can_hold s, grid s)"

text \<open>
  Keys of one game, from the menu: start; hard drop three pieces, rotate the fourth and
  hard drop it, hard drop four more; hold, hard drop, hold, hard drop.
\<close>

definition hold_swap_keys :: "event list" where
  "hold_swap_keys =
     [KEYDOWN K_SPACE,
      KEYDOWN K_SPACE, KEYDOWN K_SPACE, KEYDOWN K_SPACE, KEYDOWN K_UP,
      KEYDOWN K_SPACE, KEYDOWN K_SPACE, KEYDOWN K_SPACE, KEYDOWN K_SPACE, KEYDOWN K_SPACE,
      KEYDOWN K_c, KEYDOWN K_SPACE, KEYDOWN K_c, KEYDOWN K_SPACE]"

text \<open>The board that these keys build: a tower in the middle columns up to row 1.\<close>

definition tower_grid :: "int list list" where
  "tower_grid =
     [[0, 0, 0, 0, 0, 0, 0, 0, 0, 0], [0, 0, 0, 0, 0, 0, 3, 0, 0, 0],
      [0, 0, 0, 0, 3, 3, 3, 0, 0, 0], [0, 0, 0, 0, 2, 0, 0, 0, 0, 0],
      [0, 0, 0, 0, 2, 2, 2, 0, 0, 0], [0, 0, 0, 1, 1, 1, 1, 0, 0, 0],
      [0, 0, 0, 0, 4, 4, 0, 0, 0, 0], [0, 0, 0, 0, 4, 4, 0, 0, 0, 0],
      [0, 0, 0, 0, 0, 6, 0, 0, 0, 0], [0, 0, 0, 0, 6, 6, 6, 0, 0, 0],
      [0, 0, 0, 0, 0, 5, 5, 0, 0, 0], [0, 0, 0, 0, 5, 5, 0, 0, 0, 0],
      [0, 0, 0, 0, 0, 7, 0, 0, 0, 0], [0, 0, 0, 0, 7, 7, 0, 0, 0, 0],
      [0, 0, 0, 0, 7, 0, 0, 0, 0, 0], [0, 0, 0, 0, 2, 0, 0, 0, 0, 0],
      [0, 0, 0, 0, 2, 2, 2, 0, 0, 0], [0, 0, 0, 0, 0, 0, 3, 0, 0, 0],
      [0, 0, 0, 0, 3, 3, 3, 0, 0, 0], [0, 0, 0, 1, 1, 1, 1, 0, 0, 0]]"

section \<open>Properties\<close>

lemma GRID_WIDTH_eq [simp]: "GRID_WIDTH = 10"
  by (simp add: GRID_WIDTH_def SCREEN_WIDTH_def BLOCK_SIZE_def)

lemma GRID_HEIGHT_eq [simp]: "GRID_HEIGHT = 20"
  by (simp add: GRID_HEIGHT_def SCREEN_HEIGHT_def BLOCK_SIZE_def)

subsection \<open>Rotation\<close>

lemma rotate4_base: "(rotate_shape ^^ 4) (SHAPES_shape t) = SHAPES_shape t"
  by (cases t) (simp_all add: rotate_shape_def zip_star.simps numeral_eq_Suc)

text \<open>
  C9. A falling piece starts with the base shape of its type and its shape changes only
  by \<open>rotate\<close>, so its shape is always the base shape rotated \<open>k\<close> times for some \<open>k\<close>.
  For each of the seven piece types and every \<open>k\<close>, four more rotations give the same
  matrix back.
\<close>

theorem rotate_four_times:
  "(rotate_shape ^^ 4) ((rotate_shape ^^ k) (SHAPES_shape t)) = (rotate_shape ^^ k) (SHAPES_shape t)"
proof -
  have "(rotate_shape ^^ 4) ((rotate_shape ^^ k) (SHAPES_shape t)) =
        (rotate_shape ^^ k) ((rotate_shape ^^ 4) (SHAPES_shape t))"
    by (simp only: funpow_add [symmetric, THEN fun_cong, unfolded o_def] add.commute)
  then show ?thesis by (simp only: rotate4_base)
qed

subsection \<open>Collision test\<close>

lemma py_index_grid_row:
  "wf_grid g \<Longrightarrow> 0 \<le> cy \<Longrightarrow> cy < 20 \<Longrightarrow> py_index g cy = Inr (g ! nat cy)"
  by (simp add: wf_grid_def py_index_def py_pos_def)

lemma wf_grid_row_length:
  "wf_grid g \<Longrightarrow> 0 \<le> cy \<Longrightarrow> cy < 20 \<Longrightarrow> length (g ! nat cy) = 10"
  by (simp add: wf_grid_def list_all_length)

lemma py_index_grid_cell:
  "wf_grid g \<Longrightarrow> 0 \<le> cy \<Longrightarrow> cy < 20 \<Longrightarrow> 0 \<le> cx \<Longrightarrow> cx < 10 \<Longrightarrow>
   py_index (g ! nat cy) cx = Inr (g ! nat cy ! nat cx)"
  by (simp add: wf_grid_row_length py_index_def py_pos_def)

lemma valid_row_iff:
  "wf_grid g \<Longrightarrow>
   valid_row x0 ny dx vs g =
     Inr (\<not> (\<exists>i < length vs. vs ! i \<noteq> 0 \<and> cell_blocked g (x0 + dx + int i) ny))"
proof (induction vs arbitrary: dx)
  case Nil
  show ?case by simp
next
  case (Cons v vs)
  have step: "valid_row x0 ny (dx + 1) vs g =
     Inr (\<not> (\<exists>i < length vs. vs ! i \<noteq> 0 \<and> cell_blocked g (x0 + dx + int (Suc i)) ny))"
    using Cons.IH [OF Cons.prems, of "dx + 1"] by (simp add: algebra_simps)
  show ?case
  proof (cases "v \<noteq> 0 \<and> cell_blocked g (x0 + dx) ny")
    case True
    then show ?thesis
      using Cons.prems
      by (auto simp: Ex_less_Suc2 cell_blocked_def Let_def py_index_grid_row py_index_grid_cell)
  next
    case False
    then show ?thesis
      using Cons.prems step
      by (auto simp: Ex_less_Suc2 cell_blocked_def Let_def py_index_grid_row py_index_grid_cell)
  qed
qed

lemma valid_rows_iff:
  "wf_grid g \<Longrightarrow>
   valid_rows x0 y0 dy rows g =
     Inr (\<not> (\<exists>j < length rows. \<exists>i < length (rows ! j).
               rows ! j ! i \<noteq> 0 \<and> cell_blocked g (x0 + int i) (y0 + dy + int j)))"
proof (induction rows arbitrary: dy)
  case Nil
  show ?case by simp
next
  case (Cons row rows)
  have step: "valid_rows x0 y0 (dy + 1) rows g =
     Inr (\<not> (\<exists>j < length rows. \<exists>i < length (rows ! j).
               rows ! j ! i \<noteq> 0 \<and> cell_blocked g (x0 + int i) (y0 + dy + int (Suc j))))"
    using Cons.IH [OF Cons.prems, of "dy + 1"] by (simp add: algebra_simps)
  show ?case
    using Cons.prems step
    by (simp add: valid_row_iff Ex_less_Suc2)
qed

lemma valid_position_blocked:
  "wf_grid g \<Longrightarrow> valid_position x0 y0 sh g = Inr (\<not> some_cell_blocked x0 y0 sh g)"
  by (simp add: valid_position_def some_cell_blocked_def valid_rows_iff)

text \<open>
  C2. On a board of \<open>GRID_HEIGHT\<close> rows of \<open>GRID_WIDTH\<close> cells, \<open>valid_position\<close> raises
  nothing and returns false exactly when some occupied cell \<open>(dr, dc)\<close> of the shape
  lands at a column \<open>x0 + dc\<close> outside \<open>[0, GRID_WIDTH)\<close>, or at a row
  \<open>y0 + dr \<ge> GRID_HEIGHT\<close>, or at a row \<open>y0 + dr \<ge> 0\<close> on a non-empty cell. A cell that
  lands at a negative row is blocked only by its column: the board is not consulted.
\<close>

theorem valid_position_iff:
  "wf_grid g \<Longrightarrow>
   valid_position x0 y0 sh g =
     Inr (\<not> (\<exists>dr < length sh. \<exists>dc < length (sh ! dr).
               sh ! dr ! dc \<noteq> 0 \<and>
               (x0 + int dc < 0 \<or> x0 + int dc \<ge> GRID_WIDTH \<or> y0 + int dr \<ge> GRID_HEIGHT \<or>
                (y0 + int dr \<ge> 0 \<and> g ! nat (y0 + int dr) ! nat (x0 + int dc) \<noteq> 0))))"
  using valid_position_blocked [of g x0 y0 sh]
  by (simp add: some_cell_blocked_def cell_blocked_def)

theorem valid_position_iff_witness:
  "wf_grid (replicate 19 (replicate 10 0) @ [[0, 0, 0, 0, 5, 0, 0, 0, 0, 0]]) \<and>
   valid_position 3 18 [[0, 1, 0], [1, 1, 1]]
       (replicate 19 (replicate 10 0) @ [[0, 0, 0, 0, 5, 0, 0, 0, 0, 0]]) = Inr False"
proof -
  let ?g = "replicate 19 (replicate 10 0) @ [[0, 0, 0, 0, 5, 0, 0, 0, 0, 0 :: int]]"
  have h: "wf_grid ?g" by (simp add: wf_grid_def list_all_iff)
  have "valid_position 3 18 [[0, 1, 0], [1, 1, 1]] ?g = Inr False"
    apply (subst valid_position_iff [OF h])
    apply (simp add: nth_append)
    apply (rule exI [of _ 1])
    apply simp
    apply (rule exI [of _ 1])
    apply (simp add: nth_append)
    done
  with h show ?thesis by simp
qed

subsection \<open>Locking stays on the board\<close>

lemma row_targets_mem:
  "(gy, gx) \<in> set (row_targets p ry cx vs) \<Longrightarrow>
   \<exists>i < length vs. vs ! i \<noteq> 0 \<and> gy = pos_y p + ry \<and> gx = pos_x p + cx + int i \<and>
                    0 \<le> gy \<and> gy < GRID_HEIGHT"
proof (induction vs arbitrary: cx)
  case Nil
  then show ?case by simp
next
  case (Cons v vs)
  show ?case
  proof (cases "(gy, gx) \<in> set (row_targets p ry (cx + 1) vs)")
    case True
    from Cons.IH [OF True] obtain i where
      "i < length vs" "vs ! i \<noteq> 0" "gy = pos_y p + ry" "gx = pos_x p + (cx + 1) + int i"
      "0 \<le> gy" "gy < GRID_HEIGHT" by blast
    then have "Suc i < length (v # vs) \<and> (v # vs) ! Suc i \<noteq> 0 \<and> gy = pos_y p + ry \<and>
               gx = pos_x p + cx + int (Suc i) \<and> 0 \<le> gy \<and> gy < GRID_HEIGHT"
      by simp
    then show ?thesis by blast
  next
    case False
    with Cons.prems have "v \<noteq> 0 \<and> gy = pos_y p + ry \<and> gx = pos_x p + cx \<and> 0 \<le> gy \<and> gy < GRID_HEIGHT"
      by (auto simp: Let_def split: if_splits)
    then have "0 < length (v # vs) \<and> (v # vs) ! 0 \<noteq> 0 \<and> gy = pos_y p + ry \<and>
               gx = pos_x p + cx + int 0 \<and> 0 \<le> gy \<and> gy < GRID_HEIGHT"
      by simp
    then show ?thesis by blast
  qed
qed

lemma lock_targets_mem:
  "(gy, gx) \<in> set (lock_targets p ry rows) \<Longrightarrow>
   \<exists>j < length rows. \<exists>i < length (rows ! j). rows ! j ! i \<noteq> 0 \<and>
       gy = pos_y p + ry + int j \<and> gx = pos_x p + int i \<and> 0 \<le> gy \<and> gy < GRID_HEIGHT"
proof (induction rows arbitrary: ry)
  case Nil
  then show ?case by simp
next
  case (Cons row rows)
  from Cons.prems consider
    (here) "(gy, gx) \<in> set (row_targets p ry 0 row)" |
    (later) "(gy, gx) \<in> set (lock_targets p (ry + 1) rows)"
    by auto
  then show ?case
  proof cases
    case here
    from row_targets_mem [OF here] obtain i where
      "i < length row" "row ! i \<noteq> 0" "gy = pos_y p + ry" "gx = pos_x p + 0 + int i"
      "0 \<le> gy" "gy < GRID_HEIGHT" by blast
    then have "0 < length (row # rows) \<and> i < length ((row # rows) ! 0) \<and> (row # rows) ! 0 ! i \<noteq> 0 \<and>
       gy = pos_y p + ry + int 0 \<and> gx = pos_x p + int i \<and> 0 \<le> gy \<and> gy < GRID_HEIGHT"
      by simp
    then show ?thesis by blast
  next
    case later
    from Cons.IH [OF later] obtain j i where
      "j < length rows" "i < length (rows ! j)" "rows ! j ! i \<noteq> 0"
      "gy = pos_y p + (ry + 1) + int j" "gx = pos_x p + int i" "0 \<le> gy" "gy < GRID_HEIGHT"
      by blast
    then have "Suc j < length (row # rows) \<and> i < length ((row # rows) ! Suc j) \<and>
       (row # rows) ! Suc j ! i \<noteq> 0 \<and>
       gy = pos_y p + ry + int (Suc j) \<and> gx = pos_x p + int i \<and> 0 \<le> gy \<and> gy < GRID_HEIGHT"
      by simp
    then show ?thesis by blast
  qed
qed

lemma write_all_append:
  "write_all p (ts @ us) s =
     (case write_all p ts s of Inl e \<Rightarrow> Inl e | Inr s1 \<Rightarrow> write_all p us s1)"
  by (induction ts arbitrary: s) (simp_all split: sum.splits)

lemma lock_row_write_all:
  "lock_row p ry cx vs s = write_all p (row_targets p ry cx vs) s"
  by (induction vs arbitrary: cx s) (simp_all add: Let_def split: sum.splits)

lemma lock_rows_write_all:
  "lock_rows p ry rows s = write_all p (lock_targets p ry rows) s"
  by (induction rows arbitrary: ry s)
     (simp_all add: write_all_append lock_row_write_all split: sum.splits)

lemma write_cell_ok:
  assumes "wf_grid (grid s)" "in_grid t"
  shows "\<exists>s1. write_cell p t s = Inr s1 \<and> wf_grid (grid s1)"
proof -
  obtain gy gx where t: "t = (gy, gx)" by (cases t)
  with assms(2) have b: "0 \<le> gy" "gy < 20" "0 \<le> gx" "gx < 10"
    by (simp_all add: in_grid_def)
  have len: "length (grid s) = 20" using assms(1) by (simp add: wf_grid_def)
  have rl: "length (grid s ! nat gy) = 10"
    using assms(1) b by (simp add: wf_grid_row_length)
  have "wf_grid ((grid s)[nat gy := (grid s ! nat gy)[nat gx := color p]])"
    using assms(1) rl
    by (auto simp: wf_grid_def list_all_iff dest!: set_update_subset_insert [THEN subsetD])
  then show ?thesis
    using b len rl by (simp add: t py_index_def py_setitem_def py_pos_def)
qed

lemma write_all_ok:
  "wf_grid (grid s) \<Longrightarrow> list_all in_grid ts \<Longrightarrow>
   \<exists>s1. write_all p ts s = Inr s1 \<and> wf_grid (grid s1)"
proof (induction ts arbitrary: s)
  case Nil
  then show ?case by simp
next
  case (Cons t ts)
  from Cons.prems have "in_grid t" and rest: "list_all in_grid ts" by simp_all
  from write_cell_ok [OF Cons.prems(1) \<open>in_grid t\<close>, of p] obtain s1 where
    s1: "write_cell p t s = Inr s1" "wf_grid (grid s1)" by blast
  from Cons.IH [OF s1(2) rest] s1(1) show ?case by simp
qed

lemma valid_targets_in_grid:
  assumes "wf_grid g" "valid_position (pos_x p) (pos_y p) (shape p) g = Inr True"
  shows "list_all in_grid (lock_targets p 0 (shape p))"
proof -
  from assms have nb: "\<not> some_cell_blocked (pos_x p) (pos_y p) (shape p) g"
    by (simp add: valid_position_blocked)
  have "in_grid t" if "t \<in> set (lock_targets p 0 (shape p))" for t
  proof -
    obtain gy gx where t: "t = (gy, gx)" by (cases t)
    from lock_targets_mem [OF that [unfolded t]] obtain j i where
      ji: "j < length (shape p)" "i < length (shape p ! j)" "shape p ! j ! i \<noteq> 0"
      "gy = pos_y p + 0 + int j" "gx = pos_x p + int i" "0 \<le> gy" "gy < GRID_HEIGHT"
      by blast
    with nb have "\<not> cell_blocked g (pos_x p + int i) (pos_y p + int j)"
      unfolding some_cell_blocked_def by blast
    with ji show ?thesis
      by (simp add: t in_grid_def cell_blocked_def)
  qed
  then show ?thesis by (simp add: list_all_iff)
qed

lemma lock_rows_ok:
  assumes "wf_grid (grid s)"
    and "valid_position (pos_x p) (pos_y p) (shape p) (grid s) = Inr True"
  shows "\<exists>s1. lock_rows p 0 (shape p) s = Inr s1 \<and> wf_grid (grid s1)"
  using write_all_ok [OF assms(1) valid_targets_in_grid [OF assms], of p]
  by (simp add: lock_rows_write_all)

text \<open>
  C10. Let the falling piece \<open>p\<close> be valid against the board of \<open>s\<close>. The loops of
  \<open>lock_piece\<close> execute their assignments exactly at the index pairs
  \<open>lock_targets p 0 (shape p)\<close>, one after the other; every such pair has its row index in
  \<open>[0, GRID_HEIGHT)\<close> and its column index in \<open>[0, GRID_WIDTH)\<close>; and the loops finish
  without an index error, on a board of the same dimensions.
\<close>

theorem lock_in_bounds:
  assumes "wf_grid (grid s)"
    and "valid_position (pos_x p) (pos_y p) (shape p) (grid s) = Inr True"
  shows "(\<forall>(gy, gx) \<in> set (lock_targets p 0 (shape p)).
            0 \<le> gy \<and> gy < GRID_HEIGHT \<and> 0 \<le> gx \<and> gx < GRID_WIDTH) \<and>
         lock_rows p 0 (shape p) s = write_all p (lock_targets p 0 (shape p)) s \<and>
         (\<exists>s1. lock_rows p 0 (shape p) s = Inr s1 \<and> wf_grid (grid s1))"
proof -
  have tg: "list_all in_grid (lock_targets p 0 (shape p))"
    using assms by (rule valid_targets_in_grid)
  then have "\<forall>(gy, gx) \<in> set (lock_targets p 0 (shape p)).
            0 \<le> gy \<and> gy < GRID_HEIGHT \<and> 0 \<le> gx \<and> gx < GRID_WIDTH"
    by (auto simp: list_all_iff in_grid_def)
  moreover have "\<exists>s1. lock_rows p 0 (shape p) s = Inr s1 \<and> wf_grid (grid s1)"
    using write_all_ok [OF assms(1) tg, of p] by (simp add: lock_rows_write_all)
  ultimately show ?thesis by (simp add: lock_rows_write_all)
qed

lemma wf_empty_grid: "wf_grid empty_grid"
  by (simp add: wf_grid_def empty_grid_def list_all_iff)

theorem lock_in_bounds_witness:
  "wf_grid (grid menu_state) \<and>
   valid_position (pos_x (Tetrimino Piece_T)) (pos_y (Tetrimino Piece_T))
      (shape (Tetrimino Piece_T)) (grid menu_state) = Inr True \<and>
   set (lock_targets (Tetrimino Piece_T) 0 (shape (Tetrimino Piece_T))) =
      {(0, 5), (1, 4), (1, 5), (1, 6)} \<and>
   list_all in_grid (lock_targets (Tetrimino Piece_T) 0 (shape (Tetrimino Piece_T))) \<and>
   (\<exists>s1. lock_rows (Tetrimino Piece_T) 0 (shape (Tetrimino Piece_T)) menu_state = Inr s1 \<and>
         wf_grid (grid s1))"
proof -
  have h1: "wf_grid (grid menu_state)"
    by (simp add: menu_state_def wf_empty_grid)
  have h2: "valid_position (pos_x (Tetrimino Piece_T)) (pos_y (Tetrimino Piece_T))
      (shape (Tetrimino Piece_T)) (grid menu_state) = Inr True"
    by (simp add: menu_state_def Tetrimino_def valid_position_def py_index_def py_pos_def empty_grid_def)
  have h3: "set (lock_targets (Tetrimino Piece_T) 0 (shape (Tetrimino Piece_T))) =
      {(0, 5), (1, 4), (1, 5), (1, 6)}"
    by (simp add: Tetrimino_def)
  note L = lock_in_bounds [OF h1 h2]
  from L have "\<forall>(gy, gx) \<in> set (lock_targets (Tetrimino Piece_T) 0 (shape (Tetrimino Piece_T))).
       0 \<le> gy \<and> gy < GRID_HEIGHT \<and> 0 \<le> gx \<and> gx < GRID_WIDTH"
    by (rule conjunct1)
  then have h4: "list_all in_grid (lock_targets (Tetrimino Piece_T) 0 (shape (Tetrimino Piece_T)))"
    by (auto simp: list_all_iff in_grid_def)
  from L have h5: "\<exists>s1. lock_rows (Tetrimino Piece_T) 0 (shape (Tetrimino Piece_T)) menu_state = Inr s1 \<and>
         wf_grid (grid s1)"
    by (elim conjE)
  from h1 h2 h3 h4 h5 show ?thesis by (intro conjI)
qed

subsection \<open>The state after construction\<close>

lemma shuffle_zero:
  "shuffle SHAPES_keys (\<lambda>_. 0) 0 =
     ([Piece_O, Piece_T, Piece_S, Piece_Z, Piece_J, Piece_L, Piece_I], 6)"
  by code_simp

lemma init_menu_state: "init_game (\<lambda>_. 0) 0 0 None = Inr menu_state"
  by (simp add: init_game_def reset_game_def generate_next_pieces_def get_next_piece_def
      refill_bag_def shuffle_zero fill_next_pieces.simps menu_state_def
      empty_grid_def load_high_scores_def Let_def)

subsection \<open>Moves are committed or reverted\<close>

lemma valid_position_total:
  "wf_grid g \<Longrightarrow> \<exists>ok. valid_position x0 y0 sh g = Inr ok"
  by (simp add: valid_position_blocked)

text \<open>
  C4. In the Playing phase, with a falling piece \<open>p\<close> on a board of the right
  dimensions, \<open>move_piece dx dy rot\<close> tests the translated (and, if asked, rotated) piece
  with \<open>valid_position\<close>. It returns that verdict. On \<open>False\<close> the game object it
  leaves is the one it was given, in every field; on \<open>True\<close> only the falling piece has
  changed, to the new shape and origin.
\<close>

theorem move_piece_commit_or_revert:
  assumes playing: "state s = PLAYING"
    and piece: "current_piece s = Some p"
    and board: "wf_grid (grid s)"
  shows "\<exists>ok. valid_position (pos_x p + dx) (pos_y p + dy)
                 (if rot then rotate p else shape p) (grid s) = Inr ok \<and>
              move_piece dx dy rot s =
                Inr (ok, if ok
                         then s\<lparr>current_piece :=
                                 Some (p\<lparr>shape := (if rot then rotate p else shape p),
                                         pos_x := pos_x p + dx, pos_y := pos_y p + dy\<rparr>)\<rparr>
                         else s)"
proof -
  from valid_position_total [OF board] obtain ok where
    ok: "valid_position (pos_x p + dx) (pos_y p + dy)
           (if rot then rotate p else shape p) (grid s) = Inr ok"
    by blast
  have keep: "s\<lparr>current_piece := Some p\<rparr> = s"
    using piece by simp
  have "move_piece dx dy rot s =
          Inr (ok, if ok
                   then s\<lparr>current_piece :=
                           Some (p\<lparr>shape := (if rot then rotate p else shape p),
                                   pos_x := pos_x p + dx, pos_y := pos_y p + dy\<rparr>)\<rparr>
                   else s)"
  proof (cases rot)
    case True
    with ok playing piece keep show ?thesis
      by (cases ok) (simp_all add: move_piece_def Let_def)
  next
    case False
    with ok playing piece keep show ?thesis
      by (cases ok) (simp_all add: move_piece_def Let_def)
  qed
  with ok show ?thesis by blast
qed

subsection \<open>Outside the Playing phase\<close>

lemma move_piece_not_playing:
  "state s \<noteq> PLAYING \<Longrightarrow> move_piece dx dy rot s = Inr (False, s)"
  by (simp add: move_piece_def split: option.splits)

text \<open>
  C5, as the code has it. The phase is tested by \<open>move_piece\<close> and by the key handler,
  not by \<open>hard_drop\<close> and \<open>hold_current_piece\<close>. In a phase other than Playing:
  \<open>move_piece\<close> returns false and leaves the game object as it was, in every field; so
  does the handler for the keys of move left, move right, soft drop, rotate and hold;
  and so does the handler for the hard-drop key in the Paused and GameOver phases (in the
  Menu phase that key starts a game).
\<close>

theorem not_playing_noop:
  assumes "state s \<noteq> PLAYING"
  shows "move_piece dx dy rot s = Inr (False, s) \<and>
         handle_event now (KEYDOWN K_LEFT) s = Some (Inr (True, s)) \<and>
         handle_event now (KEYDOWN K_RIGHT) s = Some (Inr (True, s)) \<and>
         handle_event now (KEYDOWN K_DOWN) s = Some (Inr (True, s)) \<and>
         handle_event now (KEYDOWN K_UP) s = Some (Inr (True, s)) \<and>
         handle_event now (KEYDOWN K_c) s = Some (Inr (True, s)) \<and>
         (state s \<noteq> MENU \<longrightarrow> handle_event now (KEYDOWN K_SPACE) s = Some (Inr (True, s)))"
  using assms
  by (cases "state s") (simp_all add: move_piece_not_playing handle_event_def)

theorem not_playing_noop_witness:
  "state paused_state \<noteq> PLAYING \<and> state paused_state \<noteq> MENU \<and>
   move_piece 0 1 False paused_state = Inr (False, paused_state) \<and>
   handle_event 0 (KEYDOWN K_LEFT) paused_state = Some (Inr (True, paused_state)) \<and>
   handle_event 0 (KEYDOWN K_RIGHT) paused_state = Some (Inr (True, paused_state)) \<and>
   handle_event 0 (KEYDOWN K_DOWN) paused_state = Some (Inr (True, paused_state)) \<and>
   handle_event 0 (KEYDOWN K_UP) paused_state = Some (Inr (True, paused_state)) \<and>
   handle_event 0 (KEYDOWN K_c) paused_state = Some (Inr (True, paused_state)) \<and>
   handle_event 0 (KEYDOWN K_SPACE) paused_state = Some (Inr (True, paused_state))"
proof -
  have h: "state paused_state \<noteq> PLAYING" and m: "state paused_state \<noteq> MENU"
    by (simp_all add: paused_state_def)
  from not_playing_noop [OF h, of 0 1 False 0] h m show ?thesis
    by simp
qed

text \<open>
  The claim as it is written fails for \<open>hard_drop\<close> and \<open>hold_current_piece\<close>. On the
  game object as the constructor leaves it, in the Menu phase, \<open>hard_drop\<close> locks the
  piece into the top row and ends in the GameOver phase, and \<open>hold_current_piece\<close> fills
  the hold slot and replaces the falling piece.
\<close>

theorem hard_drop_hold_not_noop:
  "state menu_state = MENU \<and>
   grid menu_state = replicate 20 (replicate 10 0) \<and>
   hold_piece menu_state = None \<and>
   current_piece menu_state = Some (Tetrimino Piece_I) \<and>
   map_option grid (op_game (hard_drop menu_state)) =
     Some ([0, 0, 0, 1, 1, 1, 1, 0, 0, 0] # replicate 19 (replicate 10 0)) \<and>
   map_option state (op_game (hard_drop menu_state)) = Some GAME_OVER \<and>
   map_option hold_piece (op_game (Some (hold_current_piece menu_state))) =
     Some (Some (Tetrimino Piece_I)) \<and>
   map_option current_piece (op_game (Some (hold_current_piece menu_state))) =
     Some (Some (Tetrimino Piece_L))"
proof -
  have a: "state menu_state = MENU" "grid menu_state = replicate 20 (replicate 10 0)"
    "hold_piece menu_state = None" "current_piece menu_state = Some (Tetrimino Piece_I)"
    by (simp_all add: menu_state_def empty_grid_def)
  have b: "map_option grid (op_game (hard_drop menu_state)) =
     Some ([0, 0, 0, 1, 1, 1, 1, 0, 0, 0] # replicate 19 (replicate 10 0))"
    by code_simp
  have c: "map_option state (op_game (hard_drop menu_state)) = Some GAME_OVER"
    by code_simp
  have d: "map_option hold_piece (op_game (Some (hold_current_piece menu_state))) =
     Some (Some (Tetrimino Piece_I))"
    by code_simp
  have e: "map_option current_piece (op_game (Some (hold_current_piece menu_state))) =
     Some (Some (Tetrimino Piece_L))"
    by code_simp
  from a b c d e show ?thesis by (intro conjI)
qed

subsection \<open>Spawning\<close>

lemma length_shuffle_loop: "length (fst (shuffle_loop i xs r k)) = length xs"
  by (induction i arbitrary: xs k) (simp_all add: Let_def)

lemma refill_bag_nonempty: "piece_bag (refill_bag s) \<noteq> []"
proof -
  have "length (fst (shuffle SHAPES_keys (rng s) (rng_pos s))) = length SHAPES_keys"
    by (simp add: shuffle_def length_shuffle_loop)
  moreover have "length SHAPES_keys = 7"
    by (simp add: SHAPES_keys_def)
  ultimately have "fst (shuffle SHAPES_keys (rng s) (rng_pos s)) \<noteq> []"
    by auto
  then show ?thesis
    by (auto simp: refill_bag_def split: prod.splits)
qed

lemma same_play_refl [simp]: "same_play s s"
  by (simp add: same_play_def)

lemma same_play_trans: "same_play s s1 \<Longrightarrow> same_play s1 s2 \<Longrightarrow> same_play s s2"
  by (simp add: same_play_def)

lemma get_next_piece_ok:
  "\<exists>t s1. get_next_piece s = Inr (t, s1) \<and> same_play s s1 \<and>
          current_piece s1 = current_piece s \<and> next_pieces s1 = next_pieces s"
proof (cases "piece_bag s = []")
  case True
  then show ?thesis
    using refill_bag_nonempty [of s]
    by (auto simp: get_next_piece_def Let_def same_play_def refill_bag_def split: prod.splits)
next
  case False
  then show ?thesis
    by (simp add: get_next_piece_def Let_def same_play_def)
qed

lemma fill_next_pieces_ok:
  "\<exists>s1. fill_next_pieces s = Inr s1 \<and> same_play s s1 \<and> current_piece s1 = current_piece s"
proof (induction s rule: fill_next_pieces.induct)
  case (1 s)
  show ?case
  proof (cases "length (next_pieces s) < 3")
    case False
    then show ?thesis by (subst fill_next_pieces.simps) simp
  next
    case True
    from get_next_piece_ok [of s] obtain t s1 where
      g: "get_next_piece s = Inr (t, s1)" "same_play s s1" "current_piece s1 = current_piece s"
      by blast
    let ?s2 = "s1\<lparr>next_pieces := next_pieces s1 @ [Tetrimino t]\<rparr>"
    from "1.IH" [OF True g(1) refl] obtain s3 where
      f: "fill_next_pieces ?s2 = Inr s3" "same_play ?s2 s3" "current_piece s3 = current_piece ?s2"
      by blast
    have "same_play s s3"
      using g(2) f(2) by (simp add: same_play_def)
    with True g f show ?thesis
      by (subst fill_next_pieces.simps) simp
  qed
qed

lemma generate_next_pieces_ok:
  "current_piece s = Some p \<Longrightarrow>
   \<exists>s1. generate_next_pieces s = Inr s1 \<and> same_play s s1 \<and> current_piece s1 = Some p"
  using fill_next_pieces_ok [of s] by (auto simp: generate_next_pieces_def)

lemma spawn_next_piece_collision:
  assumes "next_pieces s = q # rest"
    and "valid_position (pos_x q) (pos_y q) (shape q) (grid s) = Inr False"
  shows "\<exists>s1. spawn_next_piece s = Inr s1 \<and> state s1 = GAME_OVER \<and> grid s1 = grid s \<and>
              current_piece s1 = Some q"
proof -
  let ?s0 = "s\<lparr>current_piece := Some q, next_pieces := rest\<rparr>"
  from generate_next_pieces_ok [of ?s0 q] obtain s1 where
    g: "generate_next_pieces ?s0 = Inr s1" "same_play ?s0 s1" "current_piece s1 = Some q"
    by auto
  then have "grid s1 = grid s" by (simp add: same_play_def)
  with assms g show ?thesis
    by (simp add: spawn_next_piece_def Let_def)
qed

subsection \<open>Invariants of the reachable states\<close>

lemma same_play_inv: "same_play s s1 \<Longrightarrow> engine_inv s \<Longrightarrow> engine_inv s1"
  by (simp add: same_play_def engine_inv_def)

lemma generate_next_pieces_same:
  "\<exists>s1. generate_next_pieces s = Inr s1 \<and> same_play s s1 \<and> current_piece s1 \<noteq> None"
proof (cases "current_piece s")
  case (Some p)
  from generate_next_pieces_ok [OF Some] show ?thesis by auto
next
  case None
  from get_next_piece_ok [of s] obtain t s1 where
    g: "get_next_piece s = Inr (t, s1)" "same_play s s1" by blast
  let ?s2 = "s1\<lparr>current_piece := Some (Tetrimino t)\<rparr>"
  from fill_next_pieces_ok [of ?s2] obtain s3 where
    f: "fill_next_pieces ?s2 = Inr s3" "same_play ?s2 s3" "current_piece s3 = current_piece ?s2"
    by blast
  have "generate_next_pieces s = Inr s3"
    using None g(1) f(1) by (simp add: generate_next_pieces_def)
  moreover have "same_play s s3"
    using g(2) f(2) by (simp add: same_play_def)
  ultimately show ?thesis using f(3) by auto
qed

lemma reset_game_inv:
  "\<exists>s1. reset_game now s = Inr s1 \<and> engine_inv s1 \<and> state s1 = state s \<and>
        grid s1 = empty_grid \<and> score s1 = 0 \<and> level s1 = 1 \<and> drop_speed s1 = drop_speed s"
proof -
  let ?s0 = "s\<lparr> grid := replicate (nat GRID_HEIGHT) (replicate (nat GRID_WIDTH) 0),
           locked_positions := [], current_piece := None, next_pieces := [],
           score := 0, lines_cleared := 0, level := 1, combo := 0, hold_piece := None,
           can_hold := True, piece_bag := [], stats := (\<lambda>_. 0), total_pieces := 0,
           start_time := now \<rparr>"
  from generate_next_pieces_same [of ?s0] obtain s1 where
    g: "generate_next_pieces ?s0 = Inr s1" "same_play ?s0 s1" by blast
  have e: "grid ?s0 = empty_grid" by (simp add: empty_grid_def)
  have "engine_inv ?s0"
    unfolding engine_inv_def e using wf_empty_grid by simp
  with g(2) have "engine_inv s1" by (rule same_play_inv)
  moreover have "reset_game now s = Inr s1"
    using g(1) by (simp add: reset_game_def)
  moreover have "state s1 = state s \<and> grid s1 = empty_grid \<and> score s1 = 0 \<and> level s1 = 1 \<and>
      drop_speed s1 = drop_speed s"
    using g(2) e by (simp add: same_play_def)
  ultimately show ?thesis by blast
qed

lemma move_piece_same:
  "move_piece dx dy rot s = Inr (moved, s1) \<Longrightarrow> same_play s s1"
  by (auto simp: move_piece_def Let_def same_play_def split: option.splits if_splits sum.splits)

lemma drop_loop_same_aux:
  assumes "drop_loop s d = Some y"
  shows "case y of Inl e \<Rightarrow> True | Inr (d1, s1) \<Rightarrow> same_play s s1"
proof (rule drop_loop.raw_induct
    [where P = "\<lambda>s d y. case y of Inl e \<Rightarrow> True | Inr (d1, s1) \<Rightarrow> same_play s s1", OF _ assms])
  fix f :: "game \<Rightarrow> int \<Rightarrow> (error + int \<times> game) option" and s d y
  assume IH: "\<And>s d y. f s d = Some y \<Longrightarrow>
                 (case y of Inl e \<Rightarrow> True | Inr (d1, s1) \<Rightarrow> same_play s s1)"
    and body: "(case move_piece 0 1 False s of
                  Inl e \<Rightarrow> Some (Inl e)
                | Inr (moved, s1) \<Rightarrow>
                    if moved then f s1 (d + 1) else Some (Inr (d, s1))) = Some y"
  show "case y of Inl e \<Rightarrow> True | Inr (d1, s1) \<Rightarrow> same_play s s1"
  proof (cases "move_piece 0 1 False s")
    case (Inl e)
    with body show ?thesis by auto
  next
    case (Inr r)
    obtain moved s2 where r: "r = (moved, s2)" by (cases r)
    from Inr r have sp: "same_play s s2" by (auto dest: move_piece_same)
    show ?thesis
    proof (cases moved)
      case True
      with body Inr r have "f s2 (d + 1) = Some y" by simp
      from IH [OF this] sp show ?thesis
        by (auto split: sum.splits dest: same_play_trans)
    next
      case False
      with body Inr r sp show ?thesis by auto
    qed
  qed
qed

lemma drop_loop_same:
  "drop_loop s d = Some (Inr (d1, s1)) \<Longrightarrow> same_play s s1"
  using drop_loop_same_aux [of s d "Inr (d1, s1)"] by simp

lemma py_pos_less: "py_pos n i = Some j \<Longrightarrow> j < n"
  by (auto simp: py_pos_def split: if_splits)

lemma py_index_mem: "py_index xs i = Inr x \<Longrightarrow> x \<in> set xs"
  by (auto simp: py_index_def split: option.splits dest: py_pos_less)

lemma py_setitem_shape:
  "py_setitem xs i v = Inr ys \<Longrightarrow> length ys = length xs \<and> set ys \<subseteq> insert v (set xs)"
  by (auto simp: py_setitem_def split: option.splits dest: set_update_subset_insert [THEN subsetD])

lemma py_del_shape:
  "py_del xs i = Inr ys \<Longrightarrow> Suc (length ys) = length xs \<and> set ys \<subseteq> set xs"
  by (auto simp: py_del_def split: option.splits
           dest: py_pos_less in_set_takeD in_set_dropD)

lemma write_cell_inv:
  assumes "write_cell p t s = Inr s1" and "engine_inv s"
  shows "engine_inv s1"
proof -
  obtain gy gx where t: "t = (gy, gx)" by (cases t)
  from assms(1) obtain grow grow1 g1 where
    a: "py_index (grid s) gy = Inr grow" "py_setitem grow gx (color p) = Inr grow1"
       "py_setitem (grid s) gy grow1 = Inr g1"
    and s1: "s1 = s\<lparr>grid := g1,
                     locked_positions := AList.update (gx, gy) (color p) (locked_positions s)\<rparr>"
    by (auto simp: t split: sum.splits)
  from assms(2) have wf: "length (grid s) = 20" "\<forall>r \<in> set (grid s). length r = 10"
    by (simp_all add: engine_inv_def wf_grid_def list_all_iff)
  from a(1) wf(2) have "length grow = 10" by (auto dest: py_index_mem)
  with a(2) have "length grow1 = 10" by (auto dest: py_setitem_shape)
  with a(3) wf have "length g1 = 20 \<and> (\<forall>r \<in> set g1. length r = 10)"
    by (auto dest!: py_setitem_shape)
  then have "wf_grid g1" by (simp add: wf_grid_def list_all_iff)
  with assms(2) show ?thesis by (simp add: s1 engine_inv_def)
qed

lemma write_all_inv:
  "write_all p ts s = Inr s1 \<Longrightarrow> engine_inv s \<Longrightarrow> engine_inv s1"
proof (induction ts arbitrary: s)
  case Nil
  then show ?case by simp
next
  case (Cons t ts)
  then show ?case
    by (auto split: sum.splits dest: write_cell_inv)
qed

lemma lock_rows_inv:
  "lock_rows p ry rows s = Inr s1 \<Longrightarrow> engine_inv s \<Longrightarrow> engine_inv s1"
  by (simp add: lock_rows_write_all write_all_inv)

lemma remove_lines_shape:
  "remove_lines ys g = Inr g1 \<Longrightarrow> \<forall>r \<in> set g. length r = 10 \<Longrightarrow>
   length g1 = length g \<and> (\<forall>r \<in> set g1. length r = 10)"
proof (induction ys arbitrary: g)
  case Nil
  then show ?case by simp
next
  case (Cons y ys)
  from Cons.prems(1) obtain g2 where
    d: "py_del g y = Inr g2" and r: "remove_lines ys (replicate (nat GRID_WIDTH) 0 # g2) = Inr g1"
    by (auto split: sum.splits)
  from py_del_shape [OF d] Cons.prems(2)
  have g2: "Suc (length g2) = length g" "\<forall>r \<in> set (replicate (nat GRID_WIDTH) 0 # g2). length r = 10"
    by auto
  from Cons.IH [OF r g2(2)] g2(1) show ?case by simp
qed

lemma clear_lines_inv:
  assumes "clear_lines s = Inr (n, s1)" and "engine_inv s"
  shows "engine_inv s1 \<and> 0 \<le> n"
proof -
  from assms(2) have wf: "length (grid s) = 20" "\<forall>r \<in> set (grid s). length r = 10"
    by (simp_all add: engine_inv_def wf_grid_def list_all_iff)
  from assms(1) obtain ls where ls: "scan_lines (grid s) [0 .. GRID_HEIGHT - 1] [] = Inr ls"
    by (auto simp: clear_lines_def split: sum.splits)
  show ?thesis
  proof (cases "ls = []")
    case True
    with assms ls show ?thesis by (simp add: clear_lines_def)
  next
    case False
    with assms(1) ls obtain g1 where
      r: "remove_lines (rev (sort ls)) (grid s) = Inr g1"
      and n: "n = int (length ls)"
      and lv: "level s1 = level s" "lines_cleared s1 = lines_cleared s" "grid s1 = g1"
      by (auto simp: clear_lines_def create_line_clear_effect_def Let_def split: sum.splits)
    from remove_lines_shape [OF r wf(2)] wf(1) have "wf_grid g1"
      by (simp add: wf_grid_def list_all_iff)
    with assms(2) lv n show ?thesis by (simp add: engine_inv_def)
  qed
qed

lemma calculate_score_inv:
  assumes "engine_inv s" and "0 \<le> n"
  shows "engine_inv (calculate_score n s)"
proof -
  have "lines_cleared s div 10 \<le> (lines_cleared s + n) div 10"
    using assms(2) by (simp add: zdiv_mono1)
  with assms(1) show ?thesis
    by (auto simp: calculate_score_def engine_inv_def Let_def)
qed

lemma spawn_next_piece_inv:
  assumes "spawn_next_piece s = Inr s1" and "engine_inv s"
  shows "engine_inv s1"
proof -
  from assms(1) obtain q rest where np: "next_pieces s = q # rest"
    by (auto simp: spawn_next_piece_def split: list.splits)
  let ?s0 = "s\<lparr>current_piece := Some q, next_pieces := rest\<rparr>"
  from generate_next_pieces_same [of ?s0] obtain s2 where
    g: "generate_next_pieces ?s0 = Inr s2" "same_play ?s0 s2" by blast
  from g(2) assms(2) have "engine_inv s2"
    by (simp add: same_play_def engine_inv_def)
  with assms(1) np g(1) show ?thesis
    by (auto simp: spawn_next_piece_def Let_def engine_inv_def
             split: option.splits sum.splits if_splits)
qed

lemma lock_piece_inv:
  assumes "lock_piece s = Inr s1" and "engine_inv s"
  shows "engine_inv s1"
proof (cases "current_piece s")
  case None
  with assms show ?thesis by (simp add: lock_piece_def)
next
  case (Some p)
  with assms(1) obtain s2 n s3 where
    a: "lock_rows p 0 (shape p) s = Inr s2"
       "clear_lines (s2\<lparr>stats := (stats s2)(piece_type p := stats s2 (piece_type p) + 1)\<rparr>) = Inr (n, s3)"
       "spawn_next_piece (calculate_score n s3) = Inr s1"
    by (auto simp: lock_piece_def Let_def split: sum.splits)
  from lock_rows_inv [OF a(1) assms(2)]
  have "engine_inv (s2\<lparr>stats := (stats s2)(piece_type p := stats s2 (piece_type p) + 1)\<rparr>)"
    by (simp add: engine_inv_def)
  from clear_lines_inv [OF a(2) this] have "engine_inv s3" "0 \<le> n" by simp_all
  then have "engine_inv (calculate_score n s3)" by (rule calculate_score_inv)
  with a(3) show ?thesis by (rule spawn_next_piece_inv)
qed

lemma hard_drop_inv:
  assumes "hard_drop s = Some (Inr s1)" and "engine_inv s"
  shows "engine_inv s1"
proof (cases "current_piece s")
  case None
  with assms show ?thesis by (simp add: hard_drop_def)
next
  case (Some p)
  with assms(1) obtain d s2 where
    a: "drop_loop s 0 = Some (Inr (d, s2))"
       "lock_piece (s2\<lparr>score := score s2 + d * 2\<rparr>) = Inr s1"
    by (auto simp: hard_drop_def split: option.splits sum.splits)
  from drop_loop_same [OF a(1)] assms(2) have "engine_inv (s2\<lparr>score := score s2 + d * 2\<rparr>)"
    by (simp add: same_play_def engine_inv_def)
  with a(2) show ?thesis by (rule lock_piece_inv)
qed

lemma hold_current_piece_inv:
  assumes "hold_current_piece s = Inr s1" and "engine_inv s"
  shows "engine_inv s1"
proof (cases "current_piece s")
  case None
  with assms show ?thesis by (simp add: hold_current_piece_def)
next
  case (Some p)
  show ?thesis
  proof (cases "can_hold s")
    case False
    with Some assms show ?thesis by (simp add: hold_current_piece_def)
  next
    case True
    show ?thesis
    proof (cases "hold_piece s")
      case (Some h)
      with \<open>current_piece s = Some p\<close> True assms show ?thesis
        by (auto simp: hold_current_piece_def Let_def engine_inv_def)
    next
      case None
      with \<open>current_piece s = Some p\<close> True assms(1) obtain s2 where
        a: "spawn_next_piece (s\<lparr>hold_piece := Some (Tetrimino (piece_type p))\<rparr>) = Inr s2"
        and s1: "s1 = s2\<lparr>can_hold := False\<rparr>"
        by (auto simp: hold_current_piece_def split: sum.splits)
      from assms(2) have "engine_inv (s\<lparr>hold_piece := Some (Tetrimino (piece_type p))\<rparr>)"
        by (simp add: engine_inv_def)
      from spawn_next_piece_inv [OF a this] show ?thesis
        by (simp add: s1 engine_inv_def)
    qed
  qed
qed

lemma handle_event_inv:
  assumes "handle_event now ev s = Some (Inr (go_on, s1))" and "engine_inv s"
  shows "engine_inv s1"
proof (cases ev)
  case QUIT
  with assms show ?thesis by (simp add: handle_event_def)
next
  case OTHER_EVENT
  with assms show ?thesis by (simp add: handle_event_def)
next
  case (KEYDOWN k)
  show ?thesis
  proof (cases "state s")
    case MENU
    with KEYDOWN assms reset_game_inv [of now "s\<lparr>state := PLAYING\<rparr>"] show ?thesis
      by (auto simp: handle_event_def split: if_splits sum.splits)
  next
    case GAME_OVER
    with KEYDOWN assms reset_game_inv [of now "s\<lparr>state := PLAYING\<rparr>"] show ?thesis
      by (auto simp: handle_event_def split: if_splits sum.splits)
  next
    case PAUSED
    with KEYDOWN assms show ?thesis
      by (auto simp: handle_event_def engine_inv_def split: if_splits)
  next
    case PLAYING
    have mv: "engine_inv s2" if "move_piece dx dy rot s = Inr (b, s2)" for dx dy rot b s2
      using move_piece_same [OF that] assms(2) by (rule same_play_inv)
    have sc: "engine_inv (s2\<lparr>score := v\<rparr>)" if "engine_inv s2" for s2 v
      using that by (simp add: engine_inv_def)
    have st: "engine_inv (s\<lparr>state := v\<rparr>)" for v
      using assms(2) by (simp add: engine_inv_def)
    note ev = assms(1) [unfolded KEYDOWN handle_event_def, simplified, unfolded PLAYING, simplified]
    show ?thesis
    proof (cases k)
      case K_SPACE
      with ev have "hard_drop s = Some (Inr s1)"
        by (auto split: option.splits sum.splits)
      then show ?thesis using assms(2) by (rule hard_drop_inv)
    next
      case K_LEFT
      with ev obtain b where "move_piece (- 1) 0 False s = Inr (b, s1)"
        by (auto split: sum.splits)
      then show ?thesis by (rule mv)
    next
      case K_RIGHT
      with ev obtain b where "move_piece 1 0 False s = Inr (b, s1)"
        by (auto split: sum.splits)
      then show ?thesis by (rule mv)
    next
      case K_DOWN
      with ev obtain b s2 where m: "move_piece 0 1 False s = Inr (b, s2)"
        and s1: "s1 = (if b then s2\<lparr>score := score s2 + 1\<rparr> else s2)"
        by (auto split: sum.splits)
      from mv [OF m] show ?thesis by (simp add: s1 sc)
    next
      case K_UP
      with ev obtain b where "move_piece 0 0 True s = Inr (b, s1)"
        by (auto split: sum.splits)
      then show ?thesis by (rule mv)
    next
      case K_c
      with ev have "hold_current_piece s = Inr s1"
        by (auto split: sum.splits)
      then show ?thesis using assms(2) by (rule hold_current_piece_inv)
    next
      case K_p
      with ev st show ?thesis by auto
    next
      case K_r
      with ev assms(2) show ?thesis by auto
    next
      case K_q
      with ev assms(2) show ?thesis by auto
    next
      case K_other
      with ev assms(2) show ?thesis by auto
    qed
  qed
qed

lemma update_inv:
  assumes "update now s = Inr s1" and "engine_inv s"
  shows "engine_inv s1"
proof (cases "state s \<noteq> PLAYING \<or> \<not> now - drop_time s > drop_speed s")
  case True
  with assms show ?thesis by (auto simp: update_def split: if_splits)
next
  case False
  with assms(1) obtain moved s2 s3 where
    m: "move_piece 0 1 False s = Inr (moved, s2)"
    and l: "(if \<not> moved then lock_piece s2 else Inr s2) = Inr s3"
    and s1: "s1 = s3\<lparr>drop_time := now\<rparr>"
    by (auto simp: update_def split: sum.splits if_splits)
  from move_piece_same [OF m] assms(2) have i2: "engine_inv s2" by (rule same_play_inv)
  have "engine_inv s3"
  proof (cases moved)
    case True
    with l i2 show ?thesis by simp
  next
    case False
    with l have "lock_piece s2 = Inr s3" by simp
    then show ?thesis using i2 by (rule lock_piece_inv)
  qed
  then show ?thesis by (simp add: s1 engine_inv_def)
qed

lemma draw_grid_same:
  "draw_grid s = Some (Inr s1) \<Longrightarrow> same_play s s1"
  by (auto simp: draw_grid_def Let_def same_play_def split: option.splits if_splits sum.splits)

lemma save_high_score_inv: "engine_inv s \<Longrightarrow> engine_inv (save_high_score s)"
  by (simp add: save_high_score_def Let_def engine_inv_def)

lemma init_game_inv: "init_game r t0 t1 stored = Inr s \<Longrightarrow> engine_inv s"
proof -
  assume a: "init_game r t0 t1 stored = Inr s"
  let ?b = "\<lparr> state = MENU, grid = [], locked_positions = [], current_piece = None,
               next_pieces = [], score = 0, lines_cleared = 0, level = 1, combo = 0,
               hold_piece = None, can_hold = True, piece_bag = [], stats = (\<lambda>_. 0),
               total_pieces = 0, start_time = t0, drop_time = 0, drop_speed = 500,
               line_clear_animation = 0, line_clear_rows = [], screen_shake = 0,
               flash_effect = 0, high_scores = [], rng = r, rng_pos = 0,
               file_writes = [] \<rparr>"
  from reset_game_inv [of t0 ?b] obtain s1 where
    r: "reset_game t0 ?b = Inr s1" "engine_inv s1" by blast
  with a show ?thesis
    by (auto simp: init_game_def engine_inv_def)
qed

lemma reachable_inv: "reachable s \<Longrightarrow> engine_inv s"
proof (induction rule: reachable.induct)
  case (start r t0 t1 stored s)
  then show ?case by (rule init_game_inv)
next
  case (event s now ev go_on s1)
  then show ?case by (auto intro: handle_event_inv)
next
  case (tick s now s1)
  then show ?case by (auto intro: update_inv)
next
  case (draw s s1)
  then show ?case by (auto dest: draw_grid_same same_play_inv)
next
  case (save s)
  then show ?case by (auto intro: save_high_score_inv)
qed

text \<open>
  \<open>lock_piece\<close> calls \<open>calculate_score\<close> on the game object that its two loops and
  \<open>clear_lines\<close> have left, with the count that \<open>clear_lines\<close> returned: the level
  relation holds there, and the count is not negative.
\<close>

lemma scoring_state_inv:
  assumes "engine_inv s"
    and "lock_rows p 0 (shape p) s = Inr s2"
    and "clear_lines (s2\<lparr>stats := f\<rparr>) = Inr (n, s3)"
  shows "level s3 = lines_cleared s3 div 10 + 1 \<and> 0 \<le> n"
proof -
  from lock_rows_inv [OF assms(2,1)] have "engine_inv (s2\<lparr>stats := f\<rparr>)"
    by (simp add: engine_inv_def)
  from clear_lines_inv [OF assms(3) this] show ?thesis
    by (simp add: engine_inv_def)
qed

subsection \<open>Scoring\<close>

text \<open>
  C3. At every lock the relation \<open>level = lines_cleared div 10 + 1\<close> holds before the
  call of \<open>calculate_score\<close>: it holds in every reachable state (lemma
  \<open>reachable_inv\<close>) and still holds where \<open>lock_piece\<close> makes the call (lemma
  \<open>scoring_state_inv\<close>). Then, for \<open>0 \<le> n \<le> 4\<close>:
  with \<open>n = 0\<close> only the combo counter changes, to \<open>0\<close>; with \<open>n > 0\<close> the score grows by
  the table entry times the level plus the combo bonus, the line total by \<open>n\<close>, the combo
  counter by \<open>1\<close>, and the level is again \<open>lines_cleared div 10 + 1\<close>.
\<close>

theorem calculate_score_spec:
  assumes "level s = lines_cleared s div 10 + 1" and "0 \<le> n" and "n \<le> 4"
  shows "(n = 0 \<longrightarrow> calculate_score n s = s\<lparr>combo := 0\<rparr>) \<and>
         (n > 0 \<longrightarrow>
            score (calculate_score n s) =
              score s + (if n = 1 then 100 else if n = 2 then 300 else if n = 3 then 500 else 800) * level s
                      + (if combo s > 0 then 50 * combo s * level s else 0) \<and>
            lines_cleared (calculate_score n s) = lines_cleared s + n \<and>
            combo (calculate_score n s) = combo s + 1 \<and>
            level (calculate_score n s) = lines_cleared (calculate_score n s) div 10 + 1)"
proof -
  have "n = 0 \<or> n = 1 \<or> n = 2 \<or> n = 3 \<or> n = 4"
    using assms(2,3) by arith
  moreover have "lines_cleared s div 10 \<le> (lines_cleared s + n) div 10"
    using assms(2) by (simp add: zdiv_mono1)
  ultimately show ?thesis
    using assms(1)
    by (auto simp: calculate_score_def line_scores_get_def calculate_drop_speed_def Let_def)
qed

subsection \<open>Concrete runs of the move and scoring theorems\<close>

theorem move_piece_commit_or_revert_witness:
  "state (menu_state\<lparr>state := PLAYING\<rparr>) = PLAYING \<and>
   current_piece (menu_state\<lparr>state := PLAYING\<rparr>) = Some (Tetrimino Piece_I) \<and>
   wf_grid (grid (menu_state\<lparr>state := PLAYING\<rparr>)) \<and>
   move_piece (- 4) 0 False (menu_state\<lparr>state := PLAYING\<rparr>) =
     Inr (False, menu_state\<lparr>state := PLAYING\<rparr>) \<and>
   move_piece 0 1 True (menu_state\<lparr>state := PLAYING\<rparr>) =
     Inr (True, menu_state\<lparr>state := PLAYING,
                  current_piece := Some ((Tetrimino Piece_I)\<lparr>shape := [[1], [1], [1], [1]],
                                                            pos_y := 1\<rparr>)\<rparr>)"
proof -
  let ?s = "menu_state\<lparr>state := PLAYING\<rparr>"
  let ?p = "Tetrimino Piece_I"
  have h1: "state ?s = PLAYING" by simp
  have h2: "current_piece ?s = Some ?p" by (simp add: menu_state_def)
  have h3: "wf_grid (grid ?s)" by (simp add: menu_state_def wf_empty_grid)
  have v1: "valid_position (pos_x ?p + (- 4)) (pos_y ?p + 0) (if False then rotate ?p else shape ?p)
              (grid ?s) = Inr False"
    by (simp add: Tetrimino_def valid_position_def)
  have r: "rotate ?p = [[1], [1], [1], [1]]"
    by (simp add: rotate_def rotate_shape_def Tetrimino_def zip_star.simps)
  have v2: "valid_position (pos_x ?p + 0) (pos_y ?p + 1) (if True then rotate ?p else shape ?p)
              (grid ?s) = Inr True"
    by (simp add: r) (simp add: Tetrimino_def valid_position_def menu_state_def empty_grid_def py_index_def py_pos_def)
  from move_piece_commit_or_revert [OF h1 h2 h3, of "- 4" 0 False] v1
  have m1: "move_piece (- 4) 0 False ?s = Inr (False, ?s)" by auto
  from move_piece_commit_or_revert [OF h1 h2 h3, of 0 1 True] v2
  have m2: "move_piece 0 1 True ?s =
     Inr (True, ?s\<lparr>current_piece := Some (?p\<lparr>shape := rotate ?p, pos_x := pos_x ?p + 0, pos_y := pos_y ?p + 1\<rparr>)\<rparr>)"
    by auto
  have m2': "move_piece 0 1 True ?s =
     Inr (True, menu_state\<lparr>state := PLAYING,
                  current_piece := Some (?p\<lparr>shape := [[1], [1], [1], [1]], pos_y := 1\<rparr>)\<rparr>)"
    using m2 by (simp add: r) (simp add: Tetrimino_def)
  from h1 h2 h3 m1 m2' show ?thesis by (intro conjI)
qed

theorem calculate_score_spec_witness:
  "level (menu_state\<lparr>lines_cleared := 9, combo := 1\<rparr>) =
     lines_cleared (menu_state\<lparr>lines_cleared := 9, combo := 1\<rparr>) div 10 + 1 \<and>
   score (calculate_score 1 (menu_state\<lparr>lines_cleared := 9, combo := 1\<rparr>)) = 150 \<and>
   lines_cleared (calculate_score 1 (menu_state\<lparr>lines_cleared := 9, combo := 1\<rparr>)) = 10 \<and>
   combo (calculate_score 1 (menu_state\<lparr>lines_cleared := 9, combo := 1\<rparr>)) = 2 \<and>
   level (calculate_score 1 (menu_state\<lparr>lines_cleared := 9, combo := 1\<rparr>)) = 2 \<and>
   calculate_score 0 (menu_state\<lparr>lines_cleared := 9, combo := 1\<rparr>) =
     menu_state\<lparr>lines_cleared := 9, combo := 0\<rparr>"
proof -
  let ?s = "menu_state\<lparr>lines_cleared := 9, combo := 1\<rparr>"
  have h: "level ?s = lines_cleared ?s div 10 + 1" by (simp add: menu_state_def)
  have f: "score ?s = 0" "combo ?s = 1" "level ?s = 1" "lines_cleared ?s = 9"
    by (simp_all add: menu_state_def)
  from calculate_score_spec [OF h, of 1] f
  have a: "score (calculate_score 1 ?s) = 150 \<and> lines_cleared (calculate_score 1 ?s) = 10 \<and>
           combo (calculate_score 1 ?s) = 2 \<and> level (calculate_score 1 ?s) = 2"
    by simp
  from calculate_score_spec [OF h, of 0]
  have b: "calculate_score 0 ?s = menu_state\<lparr>lines_cleared := 9, combo := 0\<rparr>"
    by simp
  from h a b show ?thesis by simp
qed

subsection \<open>Game over\<close>

lemma update_not_playing: "state s \<noteq> PLAYING \<Longrightarrow> update t s = Inr s"
  by (simp add: update_def)

lemma handle_event_game_over:
  "state s = GAME_OVER \<Longrightarrow> ev \<noteq> KEYDOWN K_r \<Longrightarrow>
   \<exists>go_on. handle_event now ev s = Some (Inr (go_on, s))"
  by (cases ev) (auto simp: handle_event_def)

lemma handle_events_game_over:
  "state s = GAME_OVER \<Longrightarrow> KEYDOWN K_r \<notin> set evs \<Longrightarrow>
   \<exists>go_on. handle_events now evs s = Some (Inr (go_on, s))"
proof (induction evs)
  case Nil
  then show ?case by auto
next
  case (Cons ev evs)
  from Cons.prems have "ev \<noteq> KEYDOWN K_r" by auto
  from handle_event_game_over [OF Cons.prems(1) this, of now] obtain b where
    b: "handle_event now ev s = Some (Inr (b, s))" by blast
  from Cons have "\<exists>go_on. handle_events now evs s = Some (Inr (go_on, s))" by simp
  with b show ?case by (cases b) auto
qed

lemma draw_grid_not_playing:
  "state s \<noteq> PLAYING \<Longrightarrow>
   \<exists>s1. draw_grid s = Some (Inr s1) \<and> same_play s s1 \<and> current_piece s1 = current_piece s"
  by (auto simp: draw_grid_def Let_def same_play_def split: option.splits)

lemma run_frame_game_over:
  assumes "state s = GAME_OVER" and "KEYDOWN K_r \<notin> set evs"
  shows "\<exists>running s1. run_frame evs t_events t_update s = Some (Inr (running, s1)) \<and>
            state s1 = GAME_OVER \<and> grid s1 = grid s \<and> current_piece s1 = current_piece s \<and>
            score s1 = score s \<and>
            length (file_writes s1) = Suc (length (file_writes s))"
proof -
  from handle_events_game_over [OF assms, of t_events] obtain b where
    b: "handle_events t_events evs s = Some (Inr (b, s))" by blast
  have u: "update t_update s = Inr s"
    using assms(1) by (simp add: update_not_playing)
  from draw_grid_not_playing [of s] assms(1) obtain s1 where
    d: "draw_grid s = Some (Inr s1)" "same_play s s1" "current_piece s1 = current_piece s"
    by auto
  from d(2) assms(1) have st: "state s1 = GAME_OVER" by (simp add: same_play_def)
  have "run_frame evs t_events t_update s = Some (Inr (b, save_high_score s1))"
    using b u d(1) st assms(1) by (simp add: run_frame_def)
  moreover have "state (save_high_score s1) = GAME_OVER \<and> grid (save_high_score s1) = grid s \<and>
     current_piece (save_high_score s1) = current_piece s \<and>
     score (save_high_score s1) = score s \<and>
     length (file_writes (save_high_score s1)) = Suc (length (file_writes s))"
    using d(2,3) st by (simp add: save_high_score_def Let_def same_play_def)
  ultimately show ?thesis by blast
qed

lemma run_frames_game_over:
  "state s = GAME_OVER \<Longrightarrow> list_all no_restart frames \<Longrightarrow>
   \<exists>running s1. run_frames frames s = Some (Inr (running, s1)) \<and>
      state s1 = GAME_OVER \<and> grid s1 = grid s \<and> current_piece s1 = current_piece s \<and>
      score s1 = score s"
proof (induction frames arbitrary: s)
  case Nil
  then show ?case by auto
next
  case (Cons fr frames)
  obtain evs t1 t2 where fr: "fr = (evs, t1, t2)" by (cases fr)
  from Cons.prems have nrf: "no_restart fr" and rest: "list_all no_restart frames"
    by simp_all
  from nrf have nr: "KEYDOWN K_r \<notin> set evs"
    by (simp add: no_restart_def fr)
  from run_frame_game_over [OF Cons.prems(1) nr, of t1 t2] obtain b s1 where
    f: "run_frame evs t1 t2 s = Some (Inr (b, s1))" "state s1 = GAME_OVER"
       "grid s1 = grid s" "current_piece s1 = current_piece s" "score s1 = score s"
    by blast
  show ?case
  proof (cases b)
    case False
    with f show ?thesis by (auto simp: fr)
  next
    case True
    from Cons.IH [OF f(2) rest] obtain b2 s2 where
      "run_frames frames s1 = Some (Inr (b2, s2))" "state s2 = GAME_OVER"
      "grid s2 = grid s1" "current_piece s2 = current_piece s1" "score s2 = score s1"
      by blast
    with True f show ?thesis by (auto simp: fr)
  qed
qed

text \<open>
  What holds of \<open>spawn_next_piece\<close>. Let the next piece \<open>q\<close> of the queue be invalid at
  its spawn position on the board of \<open>s\<close>. Then \<open>spawn_next_piece\<close> returns with the
  phase GameOver, \<open>q\<close> as the current piece and the board untouched. From there, any
  number of frames of the main loop whose events do not contain the restart key,
  whatever other keys they contain, return with the phase still GameOver and with the
  same board and the same current piece.
\<close>

lemma spawn_collision_game_over:
  assumes "next_pieces s = q # rest"
    and "valid_position (pos_x q) (pos_y q) (shape q) (grid s) = Inr False"
    and "list_all no_restart frames"
  shows "\<exists>s1. spawn_next_piece s = Inr s1 \<and> state s1 = GAME_OVER \<and>
              grid s1 = grid s \<and> current_piece s1 = Some q \<and>
              (\<exists>running s2. run_frames frames s1 = Some (Inr (running, s2)) \<and>
                  state s2 = GAME_OVER \<and> grid s2 = grid s1 \<and>
                  current_piece s2 = current_piece s1)"
proof -
  from spawn_next_piece_collision [OF assms(1,2)] obtain s1 where
    s1: "spawn_next_piece s = Inr s1" "state s1 = GAME_OVER" "grid s1 = grid s"
        "current_piece s1 = Some q"
    by blast
  from run_frames_game_over [OF s1(2) assms(3)] obtain b s2 where
    "run_frames frames s1 = Some (Inr (b, s2))" "state s2 = GAME_OVER"
    "grid s2 = grid s1" "current_piece s2 = current_piece s1"
    by blast
  with s1 show ?thesis by blast
qed

lemma spawn_collision_game_over_example:
  "next_pieces blocked_state = Tetrimino Piece_L # [Tetrimino Piece_J, Tetrimino Piece_Z] \<and>
   valid_position (pos_x (Tetrimino Piece_L)) (pos_y (Tetrimino Piece_L))
     (shape (Tetrimino Piece_L)) (grid blocked_state) = Inr False \<and>
   list_all no_restart
     [([KEYDOWN K_LEFT, KEYDOWN K_SPACE], 0, 1000), ([KEYDOWN K_UP, KEYDOWN K_DOWN], 1016, 1016)] \<and>
   (\<exists>s1. spawn_next_piece blocked_state = Inr s1 \<and> state s1 = GAME_OVER \<and>
         grid s1 = grid blocked_state \<and> current_piece s1 = Some (Tetrimino Piece_L) \<and>
         (\<exists>running s2.
            run_frames
              [([KEYDOWN K_LEFT, KEYDOWN K_SPACE], 0, 1000),
               ([KEYDOWN K_UP, KEYDOWN K_DOWN], 1016, 1016)] s1 = Some (Inr (running, s2)) \<and>
            state s2 = GAME_OVER \<and> grid s2 = grid s1 \<and> current_piece s2 = current_piece s1))"
proof -
  have h1: "next_pieces blocked_state = Tetrimino Piece_L # [Tetrimino Piece_J, Tetrimino Piece_Z]"
    by (simp add: blocked_state_def menu_state_def)
  have h2: "valid_position (pos_x (Tetrimino Piece_L)) (pos_y (Tetrimino Piece_L))
     (shape (Tetrimino Piece_L)) (grid blocked_state) = Inr False"
    by code_simp
  have h3: "list_all no_restart
     [([KEYDOWN K_LEFT, KEYDOWN K_SPACE], 0, 1000), ([KEYDOWN K_UP, KEYDOWN K_DOWN], 1016, 1016)]"
    by (simp add: no_restart_def)
  from spawn_collision_game_over [OF h1 h2 h3] h1 h2 h3 show ?thesis
    by (intro conjI)
qed

text \<open>
  The swap branch of \<open>hold_current_piece\<close> spawns too: it builds the falling piece with
  the constructor, at the spawn origin of its type. It does not call
  \<open>spawn_next_piece\<close> and does not test the position, so the phase stays as it is
  whatever the board holds there.
\<close>

lemma hold_swap_no_position_test:
  "current_piece s = Some p \<Longrightarrow> can_hold s \<Longrightarrow> hold_piece s = Some h \<Longrightarrow>
   hold_current_piece s =
     Inr (s\<lparr>current_piece := Some (Tetrimino (piece_type h)),
            hold_piece := Some (Tetrimino (piece_type p)),
            can_hold := False\<rparr>)"
  by (simp add: hold_current_piece_def Let_def)

text \<open>
  C6 fails on the code for a piece spawned by the hold swap. The run below starts from
  the game object of the constructor (lemma \<open>init_menu_state\<close>) and is a single batch of
  key events. After the keys \<open>hold_swap_keys\<close> the phase is Playing, the current piece is
  an S that is valid at its spawn position, a Z is in the hold slot, holding is allowed,
  and the tower on the board has a cell at row 1, column 6. The hold key then spawns the
  Z at its spawn origin, where its cell at row 1, column 6 lies on that cell of the
  board: the position is invalid, and the phase is still Playing, not GameOver.
\<close>

theorem hold_swap_overlaps_board:
  "map_option play_view (frame_game (handle_events 0 hold_swap_keys menu_state)) =
     Some (PLAYING, Some (Tetrimino Piece_S), Some (Inr True),
           Some (Tetrimino Piece_Z), True, tower_grid) \<and>
   map_option play_view
       (frame_game (handle_events 0 (hold_swap_keys @ [KEYDOWN K_c]) menu_state)) =
     Some (PLAYING, Some (Tetrimino Piece_Z), Some (Inr False),
           Some (Tetrimino Piece_S), False, tower_grid)"
proof -
  have a: "map_option play_view (frame_game (handle_events 0 hold_swap_keys menu_state)) =
     Some (PLAYING, Some (Tetrimino Piece_S), Some (Inr True),
           Some (Tetrimino Piece_Z), True, tower_grid)"
    by code_simp
  have b: "map_option play_view
       (frame_game (handle_events 0 (hold_swap_keys @ [KEYDOWN K_c]) menu_state)) =
     Some (PLAYING, Some (Tetrimino Piece_Z), Some (Inr False),
           Some (Tetrimino Piece_S), False, tower_grid)"
    by code_simp
  from a b show ?thesis by (intro conjI)
qed

subsection \<open>Restart and the drop interval\<close>

lemma reset_game_keeps_drop_speed:
  "\<exists>s1. reset_game now s = Inr s1 \<and> level s1 = 1 \<and> drop_speed s1 = drop_speed s"
proof -
  let ?s0 = "s\<lparr> grid := replicate (nat GRID_HEIGHT) (replicate (nat GRID_WIDTH) 0),
           locked_positions := [], current_piece := None, next_pieces := [],
           score := 0, lines_cleared := 0, level := 1, combo := 0, hold_piece := None,
           can_hold := True, piece_bag := [], stats := (\<lambda>_. 0), total_pieces := 0,
           start_time := now \<rparr>"
  from get_next_piece_ok [of ?s0] obtain t s1 where
    g: "get_next_piece ?s0 = Inr (t, s1)" "same_play ?s0 s1" by blast
  let ?s2 = "s1\<lparr>current_piece := Some (Tetrimino t)\<rparr>"
  from fill_next_pieces_ok [of ?s2] obtain s3 where
    f: "fill_next_pieces ?s2 = Inr s3" "same_play ?s2 s3" by blast
  have "reset_game now s = Inr s3"
    using g(1) f(1) by (simp add: reset_game_def generate_next_pieces_def)
  moreover have "level s3 = 1 \<and> drop_speed s3 = drop_speed s"
    using g(2) f(2) by (simp add: same_play_def)
  ultimately show ?thesis by blast
qed

text \<open>
  C7 fails on the code. \<open>reset_game\<close> sets the level to \<open>1\<close> and leaves \<open>drop_speed\<close>
  as it was (lemma \<open>reset_game_keeps_drop_speed\<close>); the only other writers of
  \<open>drop_speed\<close> are the constructor and a level increase in \<open>calculate_score\<close>. So a game
  that ended at level 2, where the interval is \<open>450\<close>, is restarted by the key \<open>R\<close> into
  the Playing phase at level \<open>1\<close> with the interval still \<open>450\<close>, where the formula
  gives \<open>500\<close>.
\<close>

theorem restart_keeps_drop_speed:
  "state over_state = GAME_OVER \<and> level over_state = 2 \<and> drop_speed over_state = 450 \<and>
   calculate_drop_speed over_state = 450 \<and>
   map_option state (frame_game (handle_event 0 (KEYDOWN K_r) over_state)) = Some PLAYING \<and>
   map_option level (frame_game (handle_event 0 (KEYDOWN K_r) over_state)) = Some 1 \<and>
   map_option drop_speed (frame_game (handle_event 0 (KEYDOWN K_r) over_state)) = Some 450 \<and>
   map_option calculate_drop_speed (frame_game (handle_event 0 (KEYDOWN K_r) over_state)) = Some 500"
proof -
  have a: "state over_state = GAME_OVER" "level over_state = 2" "drop_speed over_state = 450"
    "calculate_drop_speed over_state = 450"
    by (simp_all add: over_state_def calculate_drop_speed_def)
  have b: "map_option state (frame_game (handle_event 0 (KEYDOWN K_r) over_state)) = Some PLAYING"
    by code_simp
  have c: "map_option level (frame_game (handle_event 0 (KEYDOWN K_r) over_state)) = Some 1"
    by code_simp
  have d: "map_option drop_speed (frame_game (handle_event 0 (KEYDOWN K_r) over_state)) = Some 450"
    by code_simp
  have e: "map_option calculate_drop_speed (frame_game (handle_event 0 (KEYDOWN K_r) over_state)) = Some 500"
    by code_simp
  from a b c d e show ?thesis by (intro conjI)
qed

subsection \<open>Saving the high scores\<close>

text \<open>
  C8 fails on the code. \<open>run\<close> calls \<open>save_high_score\<close> in the drawing branch of every
  frame in which the phase is GameOver (lemma \<open>run_frame_game_over\<close>: each such frame
  adds one write of the file). Three frames without any event after the end of a game
  with score \<open>1200\<close> append the score three times and rewrite the file three times.
\<close>

theorem high_score_saved_every_frame:
  "state over_state = GAME_OVER \<and> score over_state = 1200 \<and>
   high_scores over_state = [] \<and> file_writes over_state = [] \<and>
   map_option state (frame_game (run_frames [([], 0, 0), ([], 16, 16), ([], 33, 33)] over_state)) =
     Some GAME_OVER \<and>
   map_option high_scores (frame_game (run_frames [([], 0, 0), ([], 16, 16), ([], 33, 33)] over_state)) =
     Some [1200, 1200, 1200] \<and>
   map_option file_writes (frame_game (run_frames [([], 0, 0), ([], 16, 16), ([], 33, 33)] over_state)) =
     Some [[1200], [1200, 1200], [1200, 1200, 1200]]"
proof -
  have a: "state over_state = GAME_OVER" "score over_state = 1200"
   "high_scores over_state = []" "file_writes over_state = []"
    by (simp_all add: over_state_def menu_state_def)
  have b: "map_option state (frame_game (run_frames [([], 0, 0), ([], 16, 16), ([], 33, 33)] over_state)) =
     Some GAME_OVER"
    by code_simp
  have c: "map_option high_scores (frame_game (run_frames [([], 0, 0), ([], 16, 16), ([], 33, 33)] over_state)) =
     Some [1200, 1200, 1200]"
    by code_simp
  have d: "map_option file_writes (frame_game (run_frames [([], 0, 0), ([], 16, 16), ([], 33, 33)] over_state)) =
     Some [[1200], [1200, 1200], [1200, 1200, 1200]]"
    by code_simp
  from a b c d show ?thesis by (intro conjI)
qed

subsection \<open>Clearing rows\<close>

text \<open>
  What \<open>clear_lines\<close> gets right on every board of the right dimensions: it raises
  nothing, it returns the number of full rows, and the board it leaves has the same
  dimensions. With at most one full row it meets the contract of the specification.
\<close>

lemma all_nonzero_eq:
  "wf_grid g \<Longrightarrow> 0 \<le> y \<Longrightarrow> y < 20 \<Longrightarrow> \<forall>x \<in> set xs. 0 \<le> x \<and> x < 10 \<Longrightarrow>
   all_nonzero g y xs = Inr (\<forall>x \<in> set xs. g ! nat y ! nat x \<noteq> 0)"
  by (induction xs) (auto simp: py_index_grid_row py_index_grid_cell)

lemma row_full_upto:
  assumes "length r = 10"
  shows "(\<forall>x \<in> set [0 .. 9]. r ! nat x \<noteq> 0) = row_is_full r"
proof -
  have "(\<forall>x \<in> set [0 .. 9]. r ! nat x \<noteq> 0) = (\<forall>i < 10. r ! i \<noteq> 0)"
  proof
    assume a: "\<forall>x \<in> set [0 .. 9]. r ! nat x \<noteq> 0"
    show "\<forall>i < 10. r ! i \<noteq> 0"
    proof (intro allI impI)
      fix i :: nat assume "i < 10"
      then have "int i \<in> set [0 .. 9]" by simp
      with a have "r ! nat (int i) \<noteq> 0" by blast
      then show "r ! i \<noteq> 0" by simp
    qed
  next
    assume "\<forall>i < 10. r ! i \<noteq> 0"
    then show "\<forall>x \<in> set [0 .. 9]. r ! nat x \<noteq> 0" by auto
  qed
  with assms show ?thesis by (simp add: row_is_full_def list_all_length)
qed

lemma row_scan_eq:
  assumes "wf_grid g" "0 \<le> y" "y < 20"
  shows "all_nonzero g y [0 .. 9] = Inr (row_is_full (g ! nat y))"
proof -
  have "all_nonzero g y [0 .. 9] = Inr (\<forall>x \<in> set [0 .. 9]. g ! nat y ! nat x \<noteq> 0)"
    using assms by (intro all_nonzero_eq) auto
  also have "(\<forall>x \<in> set [0 .. 9]. g ! nat y ! nat x \<noteq> 0) = row_is_full (g ! nat y)"
    using assms by (intro row_full_upto wf_grid_row_length)
  finally show ?thesis by simp
qed

lemma scan_lines_eq:
  "wf_grid g \<Longrightarrow> \<forall>y \<in> set ys. 0 \<le> y \<and> y < 20 \<Longrightarrow>
   scan_lines g ys acc = Inr (acc @ filter (\<lambda>y. row_is_full (g ! nat y)) ys)"
  by (induction ys arbitrary: acc) (simp_all add: row_scan_eq)

lemma scan_lines_full_lines:
  "wf_grid g \<Longrightarrow> scan_lines g [0 .. GRID_HEIGHT - 1] [] = Inr (full_lines g)"
  using scan_lines_eq [of g "[0 .. 19]" "[]"] by (simp add: full_lines_def)

lemma map_nth_upto:
  assumes "length g = 20"
  shows "map (\<lambda>y. g ! nat y) [0 .. 19] = g"
proof (rule nth_equalityI)
  show "length (map (\<lambda>y. g ! nat y) [0 .. 19]) = length g"
    using assms by simp
next
  fix i assume "i < length (map (\<lambda>y. g ! nat y) [0 .. 19])"
  then have i: "i < 20" by simp
  then have "[0 .. 19] ! i = int i"
    using nth_upto [of 0 i 19] by simp
  with i show "map (\<lambda>y. g ! nat y) [0 .. 19] ! i = g ! i" by simp
qed

lemma length_full_lines:
  assumes "length g = 20"
  shows "length (full_lines g) = length (filter row_is_full g)"
proof -
  have "filter row_is_full g = filter row_is_full (map (\<lambda>y. g ! nat y) [0 .. 19])"
    using map_nth_upto [OF assms] by simp
  also have "\<dots> = map (\<lambda>y. g ! nat y) (full_lines g)"
    by (simp add: filter_map full_lines_def o_def)
  finally show ?thesis by simp
qed

lemma full_lines_range: "y \<in> set (full_lines g) \<Longrightarrow> 0 \<le> y \<and> y < 20"
  by (auto simp: full_lines_def)

lemma remove_lines_ok:
  "\<forall>y \<in> set ys. 0 \<le> y \<and> y < int (length g) \<Longrightarrow> \<exists>g1. remove_lines ys g = Inr g1"
proof (induction ys arbitrary: g)
  case Nil
  show ?case by simp
next
  case (Cons y ys)
  then have y: "0 \<le> y" "y < int (length g)" by simp_all
  then obtain g2 where d: "py_del g y = Inr g2"
    by (auto simp: py_del_def py_pos_def)
  from py_del_shape [OF d] have "length (replicate (nat GRID_WIDTH) 0 # g2) = length g"
    by simp
  with Cons.prems have "\<forall>y \<in> set ys. 0 \<le> y \<and> y < int (length (replicate (nat GRID_WIDTH) 0 # g2))"
    by simp
  from Cons.IH [OF this] d show ?case by simp
qed

lemma clear_lines_count:
  assumes "wf_grid (grid s)"
  shows "\<exists>s1. clear_lines s = Inr (int (length (filter row_is_full (grid s))), s1) \<and>
              wf_grid (grid s1)"
proof -
  have len: "length (grid s) = 20" using assms by (simp add: wf_grid_def)
  have rows: "\<forall>r \<in> set (grid s). length r = 10"
    using assms by (simp add: wf_grid_def list_all_iff)
  note sc = scan_lines_full_lines [OF assms]
  note cnt = length_full_lines [OF len]
  show ?thesis
  proof (cases "full_lines (grid s) = []")
    case True
    with sc cnt assms show ?thesis by (simp add: clear_lines_def)
  next
    case False
    have "\<forall>y \<in> set (rev (sort (full_lines (grid s)))). 0 \<le> y \<and> y < int (length (grid s))"
      using len by (auto dest: full_lines_range)
    from remove_lines_ok [OF this] obtain g1 where
      r: "remove_lines (rev (sort (full_lines (grid s)))) (grid s) = Inr g1" by blast
    from remove_lines_shape [OF r rows] len have "wf_grid g1"
      by (simp add: wf_grid_def list_all_iff)
    with False sc cnt r show ?thesis
      by (simp add: clear_lines_def create_line_clear_effect_def Let_def)
  qed
qed

lemma filter_take_drop_unique:
  assumes k: "k < length g"
    and full: "P (g ! k)"
    and others: "\<And>i. i < length g \<Longrightarrow> i \<noteq> k \<Longrightarrow> \<not> P (g ! i)"
  shows "filter (\<lambda>r. \<not> P r) g = take k g @ drop (Suc k) g"
proof -
  have t: "\<forall>r \<in> set (take k g). \<not> P r"
  proof
    fix r assume "r \<in> set (take k g)"
    then obtain i where "i < length (take k g)" "take k g ! i = r"
      by (auto simp: in_set_conv_nth)
    with k have "i < length g" "i \<noteq> k" "g ! i = r" by simp_all
    with others show "\<not> P r" by blast
  qed
  have d: "\<forall>r \<in> set (drop (Suc k) g). \<not> P r"
  proof
    fix r assume "r \<in> set (drop (Suc k) g)"
    then obtain i where "i < length (drop (Suc k) g)" "drop (Suc k) g ! i = r"
      by (auto simp: in_set_conv_nth)
    with k have "Suc k + i < length g" "Suc k + i \<noteq> k" "g ! (Suc k + i) = r" by simp_all
    with others show "\<not> P r" by blast
  qed
  have "filter (\<lambda>r. \<not> P r) g = filter (\<lambda>r. \<not> P r) (take k g @ g ! k # drop (Suc k) g)"
    using id_take_nth_drop [OF k] by simp
  also have "\<dots> = take k g @ drop (Suc k) g"
    using t d full by simp
  finally show ?thesis .
qed

lemma sum_length_filter_not:
  "length (filter (\<lambda>r. \<not> P r) g) = length g - length (filter P g)"
  using sum_length_filter_compl [of P g] by simp

lemma clear_lines_at_most_one:
  assumes wf: "wf_grid (grid s)"
    and one: "length (filter row_is_full (grid s)) \<le> 1"
  shows "cleared (clear_lines s) = Some (clear_full_rows_spec (grid s))"
proof -
  let ?g = "grid s"
  have len: "length ?g = 20" using wf by (simp add: wf_grid_def)
  note sc = scan_lines_full_lines [OF wf]
  note cnt = length_full_lines [OF len]
  have n: "length ?g - length (filter (\<lambda>r. \<not> row_is_full r) ?g) = length (filter row_is_full ?g)"
    using sum_length_filter_compl [of row_is_full ?g] by simp
  show ?thesis
  proof (cases "full_lines ?g")
    case Nil
    with cnt have none: "filter row_is_full ?g = []" by simp
    then have "\<forall>r \<in> set ?g. \<not> row_is_full r"
      by (simp add: filter_empty_conv)
    then have "filter (\<lambda>r. \<not> row_is_full r) ?g = ?g" by simp
    with Nil sc show ?thesis
      by (simp add: clear_lines_def cleared_def clear_full_rows_spec_def)
  next
    case (Cons y ys)
    with cnt have e: "Suc (length ys) = length (filter row_is_full ?g)" by simp
    from e one have "length ys \<le> 0" by arith
    then have ys: "ys = []" by simp
    from e ys have c1: "length (filter row_is_full ?g) = 1" by simp
    from Cons have "y \<in> set (full_lines ?g)" by simp
    then have y: "0 \<le> y" "y < 20" "row_is_full (?g ! nat y)"
      by (auto simp: full_lines_def)
    have others: "\<not> row_is_full (?g ! i)" if "i < length ?g" "i \<noteq> nat y" for i
    proof
      assume "row_is_full (?g ! i)"
      with that(1) len have "int i \<in> set (full_lines ?g)"
        by (simp add: full_lines_def)
      with Cons ys have "int i = y" by simp
      with that(2) show False by simp
    qed
    have k: "nat y < length ?g" using y len by simp
    have kept: "filter (\<lambda>r. \<not> row_is_full r) ?g = take (nat y) ?g @ drop (Suc (nat y)) ?g"
      using k y(3) others by (rule filter_take_drop_unique)
    have del: "py_del ?g y = Inr (take (nat y) ?g @ drop (Suc (nat y)) ?g)"
      using y len by (simp add: py_del_def py_pos_def)
    have "clear_lines s =
            Inr (1, s\<lparr>line_clear_animation := 30, line_clear_rows := [y], flash_effect := 10,
                      screen_shake := 4,
                      grid := replicate 10 0 # take (nat y) ?g @ drop (Suc (nat y)) ?g,
                      locked_positions := shift_locked [y] (locked_positions s)\<rparr>)"
      using sc Cons ys del
      by (simp add: clear_lines_def create_line_clear_effect_def Let_def)
    moreover have "clear_full_rows_spec ?g =
            (1, replicate 10 0 # take (nat y) ?g @ drop (Suc (nat y)) ?g)"
      using n c1 kept by (simp add: clear_full_rows_spec_def Let_def)
    ultimately show ?thesis by (simp add: cleared_def)
  qed
qed

text \<open>
  C1 fails on the code when more than one row is full. \<open>clear_lines\<close> collects the
  indices of the full rows on the board as it is, and then, from the largest index down,
  deletes the row at that index and inserts an empty row at the top. After the first
  deletion and insertion every row above the deleted one has moved down by one, so the
  next index names the row that was above the row it was collected for. On the board
  below, rows 18 and 19 are full and row 17 is not: the contract of the specification
  keeps row 17 and removes both full rows, while \<open>clear_lines\<close> returns \<open>2\<close>, removes
  row 19 and row 17, and leaves the full row 18 at the bottom. The number returned and
  the height are right on every board (lemma \<open>clear_lines_count\<close>), and so is the
  board if at most one row is full (lemma \<open>clear_lines_at_most_one\<close>).
\<close>

theorem clear_lines_two_rows:
  "grid two_rows_state =
     replicate 17 (replicate 10 0) @
       [[1, 1, 1, 1, 0, 0, 0, 0, 0, 0], replicate 10 4, replicate 10 4] \<and>
   wf_grid (grid two_rows_state) \<and>
   clear_full_rows_spec (grid two_rows_state) =
     (2, replicate 19 (replicate 10 0) @ [[1, 1, 1, 1, 0, 0, 0, 0, 0, 0]]) \<and>
   cleared (clear_lines two_rows_state) =
     Some (2, replicate 19 (replicate 10 0) @ [replicate 10 4])"
proof -
  have a: "grid two_rows_state =
     replicate 17 (replicate 10 0) @
       [[1, 1, 1, 1, 0, 0, 0, 0, 0, 0], replicate 10 4, replicate 10 4]"
    by (simp add: two_rows_state_def)
  have b: "wf_grid (grid two_rows_state)"
    by code_simp
  have c: "clear_full_rows_spec (grid two_rows_state) =
     (2, replicate 19 (replicate 10 0) @ [[1, 1, 1, 1, 0, 0, 0, 0, 0, 0]])"
    by code_simp
  have d: "cleared (clear_lines two_rows_state) =
     Some (2, replicate 19 (replicate 10 0) @ [replicate 10 4])"
    by code_simp
  from a b c d show ?thesis by (intro conjI)
qed

end
